theory Spec2Isabelle
  imports Complex_Main "HOL-Library.Sublist"
begin

section \<open>Python values used by docparse.py\<close>

text \<open>
  A Python \<open>str\<close> is modelled as a \<open>string\<close>, one \<open>char\<close> per code point, which covers
  the code points below 256. Every exception the module can meet is an instance of
  \<open>Exception\<close>; the model keeps its \<open>str(e)\<close>.
\<close>

datatype exn = Exception string

fun str_of_exn :: "exn \<Rightarrow> string" where
  "str_of_exn (Exception m) = m"

definition isspace :: "char \<Rightarrow> bool" where
  \<comment> \<open>\<open>str.isspace\<close> on one character (the code points below 256 that Python counts as whitespace)\<close>
  "isspace c = ((of_char c :: nat) \<in> {9, 10, 11, 12, 13, 28, 29, 30, 31, 32, 133, 160})"

definition py_strip :: "string \<Rightarrow> string" where
  \<comment> \<open>\<open>s.strip()\<close>\<close>
  "py_strip s = rev (dropWhile isspace (rev (dropWhile isspace s)))"

function py_split_ws :: "string \<Rightarrow> string list" where
  \<comment> \<open>\<open>s.split()\<close>: the maximal runs of non-whitespace characters\<close>
  "py_split_ws s =
     (if dropWhile isspace s = [] then []
      else takeWhile (\<lambda>c. \<not> isspace c) (dropWhile isspace s)
           # py_split_ws (dropWhile (\<lambda>c. \<not> isspace c) (dropWhile isspace s)))"
  by pat_completeness auto
termination
proof (relation "measure length", goal_cases)
  case 1
  show ?case by simp
next
  case (2 s)
  then obtain c cs where r: "dropWhile isspace s = c # cs"
    by (cases "dropWhile isspace s") auto
  have "\<not> isspace c"
    using hd_dropWhile [of isspace s] r by simp
  then have "length (dropWhile (\<lambda>c. \<not> isspace c) (dropWhile isspace s)) \<le> length cs"
    using r by (simp add: length_dropWhile_le)
  also have "\<dots> < length (dropWhile isspace s)"
    using r by simp
  also have "\<dots> \<le> length s"
    by (rule length_dropWhile_le)
  finally show ?case by simp
qed

function str_split :: "string \<Rightarrow> string \<Rightarrow> string list" where
  \<comment> \<open>\<open>s.split(sep)\<close> for a non-empty separator: cut at each occurrence, left to right\<close>
  "str_split sep s =
     (if s = [] then [[]]
      else if sep \<noteq> [] \<and> prefix sep s then [] # str_split sep (drop (length sep) s)
      else (let r = str_split sep (tl s) in (hd s # hd r) # tl r))"
  by pat_completeness auto
termination
  by (relation "measure (\<lambda>(sep, s). length s)") (auto simp: neq_Nil_conv)

fun str_join :: "string \<Rightarrow> string list \<Rightarrow> string" where
  \<comment> \<open>\<open>sep.join(xs)\<close>\<close>
  "str_join sep [] = []"
| "str_join sep [x] = x"
| "str_join sep (x # y # ys) = x @ sep @ str_join sep (y # ys)"

definition lower_char :: "char \<Rightarrow> char" where
  "lower_char c =
     (let n = (of_char c :: nat)
      in if (65 \<le> n \<and> n \<le> 90) \<or> (192 \<le> n \<and> n \<le> 214) \<or> (216 \<le> n \<and> n \<le> 222)
         then char_of (n + 32) else c)"

definition py_lower :: "string \<Rightarrow> string" where
  \<comment> \<open>\<open>s.lower()\<close>\<close>
  "py_lower s = map lower_char s"

definition py_lstrip :: "char \<Rightarrow> string \<Rightarrow> string" where
  \<comment> \<open>\<open>s.lstrip(c)\<close> for a one-character argument\<close>
  "py_lstrip c s = dropWhile (\<lambda>x. x = c) s"

definition py_slice :: "'a list \<Rightarrow> nat \<Rightarrow> nat \<Rightarrow> 'a list" where
  \<comment> \<open>\<open>xs[i:j]\<close> for \<open>0 \<le> i \<le> j\<close>\<close>
  "py_slice xs i j = take (j - i) (drop i xs)"

definition py_range :: "int \<Rightarrow> nat list" where
  \<comment> \<open>\<open>range(n)\<close>: empty when \<open>n \<le> 0\<close>\<close>
  "py_range n = [0..<nat n]"

function py_range_step :: "nat \<Rightarrow> nat \<Rightarrow> nat \<Rightarrow> nat list" where
  \<comment> \<open>\<open>range(i, n, step)\<close> for a positive step\<close>
  "py_range_step i n step =
     (if 0 < step \<and> i < n then i # py_range_step (i + step) n step else [])"
  by pat_completeness auto
termination
  by (relation "measure (\<lambda>(i, n, step). n - i)") auto

definition py_or_int :: "int option \<Rightarrow> int \<Rightarrow> int" where
  \<comment> \<open>\<open>a or b\<close> for an \<open>Optional[int]\<close> \<open>a\<close>: \<open>None\<close> and \<open>0\<close> are falsy\<close>
  "py_or_int a b = (case a of None \<Rightarrow> b | Some n \<Rightarrow> if n = 0 then b else n)"

definition list_get :: "'a list \<Rightarrow> nat \<Rightarrow> exn + 'a" where
  \<comment> \<open>\<open>xs[i]\<close> for \<open>i \<ge> 0\<close>: IndexError out of range\<close>
  "list_get xs i =
     (if i < length xs then Inr (xs ! i) else Inl (Exception ''list index out of range''))"

fun for_range :: "(nat \<Rightarrow> exn + 'a) \<Rightarrow> nat list \<Rightarrow> exn + 'a list" where
  \<comment> \<open>\<open>for i in ...: pages.append(body(i))\<close>; the first exception leaves the loop\<close>
  "for_range body [] = Inr []"
| "for_range body (i # is) =
     (case body i of
        Inl e \<Rightarrow> Inl e
      | Inr p \<Rightarrow> (case for_range body is of Inl e \<Rightarrow> Inl e | Inr ps \<Rightarrow> Inr (p # ps)))"

section \<open>Data model\<close>

datatype DocumentType = PDF | TXT | DOCX

fun DocumentType_value :: "DocumentType \<Rightarrow> string" where
  "DocumentType_value PDF = ''pdf''"
| "DocumentType_value TXT = ''txt''"
| "DocumentType_value DOCX = ''docx''"

definition DocumentType_of :: "string \<Rightarrow> exn + DocumentType" where
  \<comment> \<open>\<open>DocumentType(extension)\<close>: lookup by value, ValueError when no member has it\<close>
  "DocumentType_of v =
     (if v = ''pdf'' then Inr PDF
      else if v = ''txt'' then Inr TXT
      else if v = ''docx'' then Inr DOCX
      else Inl (Exception (v @ '' is not a valid DocumentType'')))"

datatype ExtractionMethod = PDFPLUMBER | PYMUPDF | PLAIN_TEXT | PYTHON_DOCX

fun ExtractionMethod_value :: "ExtractionMethod \<Rightarrow> string" where
  "ExtractionMethod_value PDFPLUMBER = ''pdfplumber''"
| "ExtractionMethod_value PYMUPDF = ''pymupdf''"
| "ExtractionMethod_value PLAIN_TEXT = ''plain_text''"
| "ExtractionMethod_value PYTHON_DOCX = ''python_docx''"

record ProcessingOptions =
  max_pages :: "int option"
  preserve_formatting :: bool
  extract_tables :: bool
  extract_metadata :: bool
  encoding :: string
  error_handling :: string

definition default_options :: ProcessingOptions where
  \<comment> \<open>\<open>ProcessingOptions()\<close>\<close>
  "default_options =
     \<lparr>max_pages = None, preserve_formatting = False, extract_tables = True,
      extract_metadata = True, encoding = ''utf-8'', error_handling = ''ignore''\<rparr>"

record DocumentMetadata =
  filename :: string
  file_size :: int
  total_pages :: int
  pages_processed :: int
  extraction_timestamp :: string
  extraction_method :: string
  processing_time :: real
  document_type :: string

record PageContent =
  page_number :: int
  "text" :: string
  word_count :: int
  character_count :: int
  tables_count :: int
  tables :: "string list list list"

record ExtractionResult =
  metadata :: DocumentMetadata
  pages :: "PageContent list"
  success :: bool
  error_message :: "string option"

section \<open>The world outside the module\<close>

text \<open>
  A \<open>pathlib.Path\<close> is kept as its directory and its final component. The file system,
  the three format libraries and the clock are inputs: what each call of them returns
  (or raises) is read from a \<open>world\<close>. \<open>Path.exists()\<close> is one of these calls: it
  returns a boolean, or raises the OSError of the underlying \<open>stat\<close> when that error is
  not one of the few it reads as absence (a name that is too long, a directory that
  may not be searched).
\<close>

record Path =
  path_parent :: string
  path_name :: string

record plumber_page =
  page_extract_text :: "exn + string option"
  page_extract_tables :: "exn + string list list list option"

record world =
  fs_exists :: "Path \<Rightarrow> exn + bool"
  fs_size :: "Path \<Rightarrow> int"
  fs_read :: "Path \<Rightarrow> string \<Rightarrow> string \<Rightarrow> exn + string"
  pdfplumber_open :: "Path \<Rightarrow> exn + plumber_page list"
  fitz_open :: "Path \<Rightarrow> exn + (exn + string) list"
  docx_Document :: "Path \<Rightarrow> exn + string list"
  clock_start :: real
  clock_end :: real
  clock_iso :: string

definition Path_suffix :: "Path \<Rightarrow> string" where
  \<comment> \<open>\<open>file_path.suffix\<close>: from the last dot of the name, when that dot is neither its
      first nor its last character\<close>
  "Path_suffix p =
     (let nm = path_name p;
          after = rev (takeWhile (\<lambda>c. c \<noteq> CHR ''.'') (rev nm))
      in if CHR ''.'' \<in> set nm \<and> after \<noteq> [] \<and> length after + 1 < length nm
         then CHR ''.'' # after else [])"

definition Path_stat_size :: "world \<Rightarrow> Path \<Rightarrow> exn + int" where
  \<comment> \<open>\<open>file_path.stat().st_size\<close>: raises where \<open>exists()\<close> raises, and when the path does
      not exist\<close>
  "Path_stat_size w p =
     (case fs_exists w p of
        Inl e \<Rightarrow> Inl e
      | Inr found \<Rightarrow>
          if found then Inr (fs_size w p) else Inl (Exception ''No such file or directory''))"

section \<open>PDFProcessor\<close>

definition new_page_content ::
  "nat \<Rightarrow> string \<Rightarrow> int \<Rightarrow> string list list list \<Rightarrow> PageContent" where
  \<comment> \<open>\<open>PageContent(page_number=page_num + 1, text=..., word_count=...,
      character_count=len(text), tables_count=len(tables), tables=tables)\<close>\<close>
  "new_page_content page_num txt words tbls =
     \<lparr>page_number = int page_num + 1, text = txt, word_count = words,
      character_count = int (length txt), tables_count = int (length tbls), tables = tbls\<rparr>"

definition pdfplumber_page ::
  "ProcessingOptions \<Rightarrow> plumber_page list \<Rightarrow> nat \<Rightarrow> exn + PageContent" where
  \<comment> \<open>the body of the page loop of \<open>_extract_with_pdfplumber\<close>\<close>
  "pdfplumber_page options pdf_pages page_num =
     (case list_get pdf_pages page_num of
        Inl e \<Rightarrow> Inl e
      | Inr page \<Rightarrow>
         (case page_extract_text page of
            Inl e \<Rightarrow> Inl e
          | Inr t \<Rightarrow>
             (let txt = (case t of None \<Rightarrow> [] | Some s \<Rightarrow> s)
              in case (if extract_tables options
                       then (case page_extract_tables page of
                               Inl e \<Rightarrow> Inl e
                             | Inr ts \<Rightarrow> Inr (case ts of None \<Rightarrow> [] | Some l \<Rightarrow> l))
                       else Inr []) of
                   Inl e \<Rightarrow> Inl e
                 | Inr tbls \<Rightarrow>
                     Inr (new_page_content page_num (py_strip txt)
                            (if py_strip txt \<noteq> [] then int (length (py_split_ws txt)) else 0)
                            tbls))))"

definition extract_with_pdfplumber ::
  "world \<Rightarrow> Path \<Rightarrow> ProcessingOptions \<Rightarrow> exn + ExtractionResult" where
  "extract_with_pdfplumber w file_path options =
     (case pdfplumber_open w file_path of
        Inl e \<Rightarrow> Inl e
      | Inr pdf_pages \<Rightarrow>
         (let total = int (length pdf_pages);
              pages_to_process = min (py_or_int (max_pages options) total) total
          in case for_range (pdfplumber_page options pdf_pages) (py_range pages_to_process) of
               Inl e \<Rightarrow> Inl e
             | Inr pgs \<Rightarrow>
                (case Path_stat_size w file_path of
                   Inl e \<Rightarrow> Inl e
                 | Inr st_size \<Rightarrow>
                    Inr \<lparr>metadata =
                           \<lparr>filename = path_name file_path, file_size = st_size,
                            total_pages = total, pages_processed = pages_to_process,
                            extraction_timestamp = clock_iso w,
                            extraction_method = ExtractionMethod_value PDFPLUMBER,
                            processing_time = clock_end w - clock_start w,
                            document_type = DocumentType_value PDF\<rparr>,
                         pages = pgs, success = True, error_message = None\<rparr>)))"

definition pymupdf_page :: "(exn + string) list \<Rightarrow> nat \<Rightarrow> exn + PageContent" where
  \<comment> \<open>the body of the page loop of \<open>_extract_with_pymupdf\<close>; a page of the document is
      what its \<open>get_text()\<close> returns or raises\<close>
  "pymupdf_page doc page_num =
     (case list_get doc page_num of
        Inl e \<Rightarrow> Inl e
      | Inr page \<Rightarrow>
         (case page of
            Inl e \<Rightarrow> Inl e
          | Inr txt \<Rightarrow>
              Inr (new_page_content page_num (py_strip txt)
                     (if py_strip txt \<noteq> [] then int (length (py_split_ws txt)) else 0) [])))"

definition extract_with_pymupdf ::
  "world \<Rightarrow> Path \<Rightarrow> ProcessingOptions \<Rightarrow> exn + ExtractionResult" where
  "extract_with_pymupdf w file_path options =
     (case fitz_open w file_path of
        Inl e \<Rightarrow> Inl e
      | Inr doc \<Rightarrow>
         (let total = int (length doc);
              pages_to_process = min (py_or_int (max_pages options) total) total
          in case for_range (pymupdf_page doc) (py_range pages_to_process) of
               Inl e \<Rightarrow> Inl e
             | Inr pgs \<Rightarrow>
                (case Path_stat_size w file_path of
                   Inl e \<Rightarrow> Inl e
                 | Inr st_size \<Rightarrow>
                    Inr \<lparr>metadata =
                           \<lparr>filename = path_name file_path, file_size = st_size,
                            total_pages = total, pages_processed = pages_to_process,
                            extraction_timestamp = clock_iso w,
                            extraction_method = ExtractionMethod_value PYMUPDF,
                            processing_time = clock_end w - clock_start w,
                            document_type = DocumentType_value PDF\<rparr>,
                         pages = pgs, success = True, error_message = None\<rparr>)))"

definition create_error_metadata ::
  "DocumentType \<Rightarrow> world \<Rightarrow> Path \<Rightarrow> exn + DocumentMetadata" where
  \<comment> \<open>\<open>_create_error_metadata\<close>; the three processors differ in \<open>document_type\<close> only\<close>
  "create_error_metadata doc_type w file_path =
     (case fs_exists w file_path of
        Inl e \<Rightarrow> Inl e
      | Inr found \<Rightarrow>
         (case (if found then Path_stat_size w file_path else Inr 0) of
            Inl e \<Rightarrow> Inl e
          | Inr sz \<Rightarrow>
              Inr \<lparr>filename = path_name file_path, file_size = sz, total_pages = 0,
                   pages_processed = 0, extraction_timestamp = clock_iso w,
                   extraction_method = ''failed'',
                   processing_time = clock_end w - clock_start w,
                   document_type = DocumentType_value doc_type\<rparr>))"

definition failure_result ::
  "DocumentType \<Rightarrow> string \<Rightarrow> world \<Rightarrow> Path \<Rightarrow> exn \<Rightarrow> exn + ExtractionResult" where
  \<comment> \<open>the \<open>except\<close> handler shared by the three processors:
      \<open>ExtractionResult(metadata=self._create_error_metadata(...), pages=[], success=False,
      error_message=f"... extraction failed: {str(e)}")\<close>\<close>
  "failure_result doc_type label w file_path e =
     (case create_error_metadata doc_type w file_path of
        Inl e' \<Rightarrow> Inl e'
      | Inr md \<Rightarrow>
          Inr \<lparr>metadata = md, pages = [], success = False,
               error_message = Some (label @ '' extraction failed: '' @ str_of_exn e)\<rparr>)"

definition PDF_extract_text ::
  "world \<Rightarrow> Path \<Rightarrow> ProcessingOptions \<Rightarrow> exn + ExtractionResult" where
  "PDF_extract_text w file_path options =
     (case extract_with_pdfplumber w file_path options of
        Inr r \<Rightarrow> Inr r
      | Inl e \<Rightarrow>
         (case extract_with_pymupdf w file_path options of
            Inr r \<Rightarrow> Inr r
          | Inl fallback_error \<Rightarrow> failure_result PDF ''PDF'' w file_path e))"

section \<open>TXTProcessor\<close>

definition nonblank :: "string \<Rightarrow> bool" where
  \<comment> \<open>the truth value of \<open>page.strip()\<close>\<close>
  "nonblank s = (py_strip s \<noteq> [])"

definition split_into_pages :: "string \<Rightarrow> string list" where
  "split_into_pages content =
     (if length (str_split [CHR 0x0C] content) > 1
      then filter nonblank (str_split [CHR 0x0C] content)
      else if length (str_split ''\<newline>\<newline>\<newline>'' content) > 1
      then filter nonblank (str_split ''\<newline>\<newline>\<newline>'' content)
      else if length content > 3000
      then map (\<lambda>i. py_slice content i (i + 3000)) (py_range_step 0 (length content) 3000)
      else if nonblank content then [content] else [[]])"

definition txt_page :: "string list \<Rightarrow> nat \<Rightarrow> exn + PageContent" where
  \<comment> \<open>the body of the page loop of \<open>TXTProcessor.extract_text\<close>\<close>
  "txt_page pages_text page_num =
     (case list_get pages_text page_num of
        Inl e \<Rightarrow> Inl e
      | Inr raw \<Rightarrow>
          Inr (new_page_content page_num (py_strip raw)
                 (if py_strip raw \<noteq> [] then int (length (py_split_ws (py_strip raw))) else 0)
                 []))"

definition TXT_try :: "world \<Rightarrow> Path \<Rightarrow> ProcessingOptions \<Rightarrow> exn + ExtractionResult" where
  \<comment> \<open>the \<open>try\<close> block of \<open>TXTProcessor.extract_text\<close>\<close>
  "TXT_try w file_path options =
     (case fs_read w file_path (encoding options) (error_handling options) of
        Inl e \<Rightarrow> Inl e
      | Inr content \<Rightarrow>
         (let pages_text = split_into_pages content;
              total = int (length pages_text);
              pages_to_process = min (py_or_int (max_pages options) total) total
          in case for_range (txt_page pages_text) (py_range pages_to_process) of
               Inl e \<Rightarrow> Inl e
             | Inr pgs \<Rightarrow>
                (case Path_stat_size w file_path of
                   Inl e \<Rightarrow> Inl e
                 | Inr st_size \<Rightarrow>
                    Inr \<lparr>metadata =
                           \<lparr>filename = path_name file_path, file_size = st_size,
                            total_pages = total, pages_processed = pages_to_process,
                            extraction_timestamp = clock_iso w,
                            extraction_method = ExtractionMethod_value PLAIN_TEXT,
                            processing_time = clock_end w - clock_start w,
                            document_type = DocumentType_value TXT\<rparr>,
                         pages = pgs, success = True, error_message = None\<rparr>)))"

definition TXT_extract_text ::
  "world \<Rightarrow> Path \<Rightarrow> ProcessingOptions \<Rightarrow> exn + ExtractionResult" where
  "TXT_extract_text w file_path options =
     (case TXT_try w file_path options of
        Inr r \<Rightarrow> Inr r
      | Inl e \<Rightarrow> failure_result TXT ''TXT'' w file_path e)"

section \<open>DOCXProcessor\<close>

fun group_loop :: "string list \<Rightarrow> string list \<Rightarrow> string list \<Rightarrow> string list \<times> string list" where
  \<comment> \<open>the paragraph loop of \<open>_group_into_pages\<close> on the paragraphs' texts, from the state
      \<open>(pages, current_page)\<close>\<close>
  "group_loop pgs current_page [] = (pgs, current_page)"
| "group_loop pgs current_page (paragraph # rest) =
     (if py_strip paragraph \<noteq> []
      then group_loop pgs (current_page @ [py_strip paragraph]) rest
      else if current_page \<noteq> []
      then group_loop (pgs @ [str_join ''\<newline>'' current_page]) [] rest
      else group_loop pgs current_page rest)"

definition group_into_pages :: "string list \<Rightarrow> string list" where
  "group_into_pages paragraphs =
     (let (pgs, current_page) = group_loop [] [] paragraphs;
          pgs = (if current_page \<noteq> [] then pgs @ [str_join ''\<newline>'' current_page] else pgs);
          pgs = (if pgs = [] \<and> paragraphs \<noteq> []
                 then (let all_text = str_join ''\<newline>'' (filter nonblank paragraphs)
                       in if all_text \<noteq> [] then [all_text] else [[]])
                 else pgs)
      in if pgs \<noteq> [] then pgs else [[]])"

definition docx_page :: "string list \<Rightarrow> nat \<Rightarrow> exn + PageContent" where
  \<comment> \<open>the body of the page loop of \<open>DOCXProcessor.extract_text\<close>\<close>
  "docx_page pages_text page_num =
     (case list_get pages_text page_num of
        Inl e \<Rightarrow> Inl e
      | Inr txt \<Rightarrow>
          Inr (new_page_content page_num txt
                 (if txt \<noteq> [] then int (length (py_split_ws txt)) else 0) []))"

definition DOCX_try :: "world \<Rightarrow> Path \<Rightarrow> ProcessingOptions \<Rightarrow> exn + ExtractionResult" where
  \<comment> \<open>the \<open>try\<close> block of \<open>DOCXProcessor.extract_text\<close>\<close>
  "DOCX_try w file_path options =
     (case docx_Document w file_path of
        Inl e \<Rightarrow> Inl e
      | Inr paragraphs \<Rightarrow>
         (let pages_text = group_into_pages paragraphs;
              total = int (length pages_text);
              pages_to_process = min (py_or_int (max_pages options) total) total
          in case for_range (docx_page pages_text) (py_range pages_to_process) of
               Inl e \<Rightarrow> Inl e
             | Inr pgs \<Rightarrow>
                (case Path_stat_size w file_path of
                   Inl e \<Rightarrow> Inl e
                 | Inr st_size \<Rightarrow>
                    Inr \<lparr>metadata =
                           \<lparr>filename = path_name file_path, file_size = st_size,
                            total_pages = total, pages_processed = pages_to_process,
                            extraction_timestamp = clock_iso w,
                            extraction_method = ExtractionMethod_value PYTHON_DOCX,
                            processing_time = clock_end w - clock_start w,
                            document_type = DocumentType_value DOCX\<rparr>,
                         pages = pgs, success = True, error_message = None\<rparr>)))"

definition DOCX_extract_text ::
  "world \<Rightarrow> Path \<Rightarrow> ProcessingOptions \<Rightarrow> exn + ExtractionResult" where
  "DOCX_extract_text w file_path options =
     (case DOCX_try w file_path options of
        Inr r \<Rightarrow> Inr r
      | Inl e \<Rightarrow> failure_result DOCX ''DOCX'' w file_path e)"

section \<open>DocParseEngine\<close>

type_synonym processor = "world \<Rightarrow> Path \<Rightarrow> ProcessingOptions \<Rightarrow> exn + ExtractionResult"

fun processors :: "DocumentType \<Rightarrow> processor" where
  \<comment> \<open>\<open>self.processors\<close>, as \<open>__init__\<close> fills it\<close>
  "processors PDF = PDF_extract_text"
| "processors TXT = TXT_extract_text"
| "processors DOCX = DOCX_extract_text"

definition file_extension :: "Path \<Rightarrow> string" where
  \<comment> \<open>\<open>file_path.suffix.lower().lstrip('.')\<close>\<close>
  "file_extension file_path = py_lstrip (CHR ''.'') (py_lower (Path_suffix file_path))"

definition engine_extract_text ::
  "(DocumentType \<Rightarrow> processor) \<Rightarrow> world \<Rightarrow> Path \<Rightarrow> ProcessingOptions option
     \<Rightarrow> exn + ExtractionResult" where
  \<comment> \<open>\<open>DocParseEngine.extract_text\<close> of an engine whose \<open>self.processors\<close> is \<open>procs\<close>\<close>
  "engine_extract_text procs w file_path opts =
     (let options = (case opts of None \<Rightarrow> default_options | Some given \<Rightarrow> given)
      in case fs_exists w file_path of
           Inl e \<Rightarrow> Inl e
         | Inr found \<Rightarrow>
            if \<not> found
            then Inr \<lparr>metadata =
                        \<lparr>filename = path_name file_path, file_size = 0, total_pages = 0,
                         pages_processed = 0, extraction_timestamp = clock_iso w,
                         extraction_method = ''failed'', processing_time = 0,
                         document_type = ''unknown''\<rparr>,
                      pages = [], success = False, error_message = Some ''File not found''\<rparr>
            else (case DocumentType_of (file_extension file_path) of
                    Inl value_error \<Rightarrow>
                      (case Path_stat_size w file_path of
                         Inl e \<Rightarrow> Inl e
                       | Inr st_size \<Rightarrow>
                          Inr \<lparr>metadata =
                                 \<lparr>filename = path_name file_path, file_size = st_size,
                                  total_pages = 0, pages_processed = 0,
                                  extraction_timestamp = clock_iso w,
                                  extraction_method = ''failed'', processing_time = 0,
                                  document_type = file_extension file_path\<rparr>,
                               pages = [], success = False,
                               error_message =
                                 Some (''Unsupported file type: '' @ file_extension file_path)\<rparr>)
                  | Inr doc_type \<Rightarrow> procs doc_type w file_path options))"

definition DocParseEngine_extract_text ::
  "world \<Rightarrow> Path \<Rightarrow> ProcessingOptions option \<Rightarrow> exn + ExtractionResult" where
  "DocParseEngine_extract_text = engine_extract_text processors"

definition extract_document ::
  "world \<Rightarrow> Path \<Rightarrow> int option \<Rightarrow> exn + ExtractionResult" where
  \<comment> \<open>\<open>extract_document(file_path, max_pages)\<close> with no further keyword\<close>
  "extract_document w file_path mp =
     DocParseEngine_extract_text w file_path (Some (default_options\<lparr>max_pages := mp\<rparr>))"

section \<open>Notions the specification uses\<close>

definition trimmed :: "string \<Rightarrow> bool" where
  \<comment> \<open>a text that carries no leading and no trailing whitespace\<close>
  "trimmed s = (s = [] \<or> (\<not> isspace (hd s) \<and> \<not> isspace (last s)))"

definition well_formed_page :: "PageContent \<Rightarrow> bool" where
  \<comment> \<open>the invariant of a PageContent\<close>
  "well_formed_page pc =
     (trimmed (text pc)
      \<and> ((word_count pc = 0) = (text pc = []))
      \<and> (text pc \<noteq> [] \<longrightarrow> word_count pc = int (length (py_split_ws (text pc))))
      \<and> character_count pc = int (length (text pc))
      \<and> tables_count pc = int (length (tables pc)))"

definition cap :: "int option \<Rightarrow> int \<Rightarrow> int" where
  \<comment> \<open>the value every strategy computes as \<open>pages_to_process\<close>\<close>
  "cap mp n = min (py_or_int mp n) n"

section \<open>A sample world for concrete runs\<close>

definition sample_path :: "string \<Rightarrow> Path" where
  "sample_path nm = \<lparr>path_parent = ''/srv/uploads'', path_name = nm\<rparr>"

definition long_name :: "string \<Rightarrow> string" where
  \<comment> \<open>a file name of more than 255 characters, which no file can bear\<close>
  "long_name ext = replicate 300 (CHR ''a'') @ ext"

definition name_too_long :: exn where
  "name_too_long = Exception ''[Errno 36] File name too long''"

definition sample_world :: world where
  "sample_world =
     \<lparr>fs_exists = (\<lambda>p.
         if 255 < length (path_name p) then Inl name_too_long
         else Inr (path_name p \<noteq> ''missing.txt'')),
      fs_size = (\<lambda>p. 42),
      fs_read = (\<lambda>p enc err.
         if 255 < length (path_name p) then Inl name_too_long
         else if path_name p = ''blank.txt'' then Inr [CHR 0x0C]
         else if path_name p = ''locked.txt'' then Inl (Exception ''Permission denied'')
         else Inr (''Page one content'' @ [CHR 0x0C, CHR 0x0C] @ ''Page two content'')),
      pdfplumber_open = (\<lambda>p.
         if 255 < length (path_name p) then Inl name_too_long
         else if path_name p = ''broken.pdf'' then Inl (Exception ''No /Root object'')
         else Inr [\<lparr>page_extract_text = Inr (Some '' Annual report ''),
                     page_extract_tables = Inr (Some [[[''a'', ''b'']]])\<rparr>,
                   \<lparr>page_extract_text = Inr None, page_extract_tables = Inr None\<rparr>,
                   \<lparr>page_extract_text = Inr (Some ''third page''),
                     page_extract_tables = Inr (Some [])\<rparr>]),
      fitz_open = (\<lambda>p.
         if 255 < length (path_name p) then Inl (Exception ''cannot open file'')
         else if path_name p = ''broken.pdf'' then Inl (Exception ''cannot open document'')
         else Inr [Inr ''Annual report'']),
      docx_Document = (\<lambda>p.
         if 255 < length (path_name p) then Inl name_too_long
         else if path_name p = ''corrupt.docx'' then Inl (Exception ''Package not found'')
         else Inr [''Title'', '' first line '', '''', ''Second part'']),
      clock_start = 10, clock_end = 12, clock_iso = ''2024-05-01T09:30:00''\<rparr>"

definition raw_extension :: "Path \<Rightarrow> string" where
  \<comment> \<open>the extension as the file name spells it: the suffix without its dot\<close>
  "raw_extension file_path = py_lstrip (CHR ''.'') (Path_suffix file_path)"

section \<open>The text segmentation in the specification's words\<close>

function split_newline_runs :: "string \<Rightarrow> string list" where
  \<comment> \<open>the specification's second step: cut at every run of three or more newlines\<close>
  "split_newline_runs s =
     (if s = [] then [[]]
      else if prefix ''\<newline>\<newline>\<newline>'' s
      then [] # split_newline_runs (dropWhile (\<lambda>c. c = CHR ''\<newline>'') s)
      else (let r = split_newline_runs (tl s) in (hd s # hd r) # tl r))"
  by pat_completeness auto
termination
proof (relation "measure length", goal_cases)
  case 1
  show ?case by simp
next
  case (2 s)
  then obtain t where "s = CHR ''\<newline>'' # t"
    by (auto simp: prefix_def)
  then show ?case
    using length_dropWhile_le [of "\<lambda>c. c = CHR ''\<newline>''" t] by simp
next
  case (3 s)
  then show ?case by (cases s) simp_all
qed

definition spec_split_into_pages :: "string \<Rightarrow> string list" where
  \<comment> \<open>the segmentation as the specification words it: a split is used when more than
      one non-blank chunk results\<close>
  "spec_split_into_pages content =
     (if length (filter nonblank (str_split [CHR 0x0C] content)) > 1
      then filter nonblank (str_split [CHR 0x0C] content)
      else if length (filter nonblank (split_newline_runs content)) > 1
      then filter nonblank (split_newline_runs content)
      else if length content > 3000
      then map (\<lambda>i. py_slice content i (i + 3000)) (py_range_step 0 (length content) 3000)
      else if nonblank content then [content] else [[]])"

section \<open>Facts about the Python string operations\<close>

declare str_split.simps [simp del]
declare py_split_ws.simps [simp del]
declare py_range_step.simps [simp del]

lemma str_split_not_Nil: "str_split sep s \<noteq> []"
  by (subst str_split.simps) (simp add: Let_def)

lemma str_split_absent: "\<not> sublist sep s \<Longrightarrow> str_split sep s = [s]"
proof (induction s)
  case Nil
  show ?case by (subst str_split.simps) simp
next
  case (Cons c s)
  from Cons.prems have np: "\<not> prefix sep (c # s)" and ns: "\<not> sublist sep s"
    by (auto simp: sublist_Cons_right)
  from Cons.IH [OF ns] np show ?case
    by (subst str_split.simps) simp
qed

lemma str_split_present:
  "sep \<noteq> [] \<Longrightarrow> sublist sep s \<Longrightarrow> 1 < length (str_split sep s)"
proof (induction s)
  case Nil
  then show ?case by simp
next
  case (Cons c s)
  show ?case
  proof (cases "prefix sep (c # s)")
    case True
    with Cons.prems(1) have "str_split sep (c # s) = [] # str_split sep (drop (length sep) (c # s))"
      by (subst str_split.simps) simp
    then show ?thesis
      using str_split_not_Nil [of sep "drop (length sep) (c # s)"] by (simp add: Suc_lessI)
  next
    case False
    with Cons.prems have "sublist sep s"
      by (simp add: sublist_Cons_right)
    from Cons.IH [OF Cons.prems(1) this] have len: "1 < length (str_split sep s)" .
    from False have "str_split sep (c # s) = (c # hd (str_split sep s)) # tl (str_split sep s)"
      by (subst str_split.simps) (simp add: Let_def)
    with len show ?thesis by simp
  qed
qed

lemma str_split_length_gt1:
  "sep \<noteq> [] \<Longrightarrow> (1 < length (str_split sep s)) = sublist sep s"
proof (cases "sublist sep s")
  case True
  assume "sep \<noteq> []"
  from str_split_present [OF this True] True show ?thesis by simp
next
  case False
  from str_split_absent [OF False] False show ?thesis by simp
qed

lemma str_join_split: "sep \<noteq> [] \<Longrightarrow> str_join sep (str_split sep s) = s"
proof (induction sep s rule: str_split.induct)
  case (1 sep s)
  show ?case
  proof (cases "s = []")
    case True
    then show ?thesis by (subst str_split.simps) simp
  next
    case ne: False
    show ?thesis
    proof (cases "prefix sep s")
      case True
      then obtain rest where s: "s = sep @ rest" by (auto simp: prefix_def)
      from True ne "1.prems" have eq: "str_split sep s = [] # str_split sep (drop (length sep) s)"
        by (subst str_split.simps) simp
      obtain x xs where r: "str_split sep (drop (length sep) s) = x # xs"
        using str_split_not_Nil by (cases "str_split sep (drop (length sep) s)") auto
      from "1.IH"(1) [OF ne _ "1.prems"] True "1.prems"
      have "str_join sep (str_split sep (drop (length sep) s)) = drop (length sep) s" by simp
      with eq r s show ?thesis by simp
    next
      case False
      with ne have eq: "str_split sep s = (hd s # hd (str_split sep (tl s))) # tl (str_split sep (tl s))"
        by (subst str_split.simps) (simp add: Let_def)
      obtain x xs where r: "str_split sep (tl s) = x # xs"
        using str_split_not_Nil by (cases "str_split sep (tl s)") auto
      from "1.IH"(2) [OF ne _ "1.prems"] False
      have "str_join sep (str_split sep (tl s)) = tl s" by simp
      with eq r ne show ?thesis by (cases xs) (auto simp: hd_Cons_tl)
    qed
  qed
qed

lemma range_step_concat:
  "0 < step \<Longrightarrow>
   concat (map (\<lambda>j. py_slice xs j (j + step)) (py_range_step i (length xs) step)) = drop i xs"
proof (induction i "length xs" step rule: py_range_step.induct)
  case (1 i step)
  show ?case
  proof (cases "i < length xs")
    case True
    with 1 have "concat (map (\<lambda>j. py_slice xs j (j + step)) (py_range_step (i + step) (length xs) step))
        = drop (i + step) xs" by simp
    with True "1.prems" show ?thesis
      by (subst py_range_step.simps) (simp add: py_slice_def add.commute [of i step] flip: drop_drop)
  next
    case False
    with "1.prems" show ?thesis
      by (subst py_range_step.simps) simp
  qed
qed

lemma range_step_length:
  "0 < step \<Longrightarrow> length (py_range_step i n step) = (n - i + (step - 1)) div step"
proof (induction i n step rule: py_range_step.induct)
  case (1 i n step)
  show ?case
  proof (cases "i < n")
    case True
    with 1 have IH: "length (py_range_step (i + step) n step) = (n - (i + step) + (step - 1)) div step"
      by simp
    have "(n - i + (step - 1)) div step = Suc ((n - (i + step) + (step - 1)) div step)"
    proof (cases "i + step \<le> n")
      case True
      define m where "m = n - (i + step) + (step - 1)"
      from True have e: "n - i + (step - 1) = m + step"
        unfolding m_def by arith
      have "(n - i + (step - 1)) div step = (m + step) div step"
        by (simp only: e)
      also have "\<dots> = Suc (m div step)"
        using "1.prems" by simp
      finally show ?thesis
        unfolding m_def .
    next
      case False
      with \<open>i < n\<close> have a: "n - (i + step) = 0" and b: "step * 1 \<le> n - i + (step - 1)"
        and c: "n - i + (step - 1) < step * Suc 1" by auto
      from b c have "(n - i + (step - 1)) div step = 1"
        by (rule div_nat_eqI)
      with a "1.prems" show ?thesis by simp
    qed
    with True "1.prems" IH show ?thesis
      by (subst py_range_step.simps) simp
  next
    case False
    with "1.prems" show ?thesis
      by (subst py_range_step.simps) simp
  qed
qed

lemma range_step_full_windows:
  "0 < step \<Longrightarrow>
   \<forall>c \<in> set (butlast (map (\<lambda>j. py_slice xs j (j + step)) (py_range_step i (length xs) step))).
     length c = step"
proof (induction i "length xs" step rule: py_range_step.induct)
  case (1 i step)
  show ?case
  proof (cases "i < length xs")
    case True
    note IH = "1.hyps" [OF conjI [OF "1.prems" True] "1.prems"]
    show ?thesis
    proof (cases "i + step < length xs")
      case True
      then have "length (py_slice xs i (i + step)) = step"
        by (simp add: py_slice_def)
      with IH \<open>i < length xs\<close> "1.prems" show ?thesis
        by (subst py_range_step.simps) (auto simp: butlast.simps split: if_splits)
    next
      case False
      then have "py_range_step (i + step) (length xs) step = []"
        by (subst py_range_step.simps) simp
      with \<open>i < length xs\<close> "1.prems" show ?thesis
        by (subst py_range_step.simps) simp
    qed
  next
    case False
    with "1.prems" show ?thesis
      by (subst py_range_step.simps) simp
  qed
qed

section \<open>Fixed-window segmentation\<close>

lemma split_into_pages_windows:
  assumes "CHR 0x0C \<notin> set content" and "\<not> sublist ''\<newline>\<newline>\<newline>'' content"
    and "3000 < length content"
  shows "split_into_pages content =
         map (\<lambda>i. py_slice content i (i + 3000)) (py_range_step 0 (length content) 3000)"
proof -
  have "\<not> sublist [CHR 0x0C] content"
    using assms(1) set_mono_sublist [of "[CHR 0x0C]" content] by auto
  then have "str_split [CHR 0x0C] content = [content]"
    by (rule str_split_absent)
  moreover have "str_split ''\<newline>\<newline>\<newline>'' content = [content]"
    using assms(2) by (rule str_split_absent)
  ultimately show ?thesis
    using assms(3) by (simp add: split_into_pages_def)
qed

text \<open>
  C3. Content longer than 3000 characters that holds no form feed and no three
  consecutive newlines is cut into \<open>ceil(L / 3000)\<close> chunks; every chunk but the last
  has 3000 characters, and the chunks concatenated in order are the content.
\<close>

theorem fixed_window_segmentation:
  assumes "3000 < length content"
    and "CHR 0x0C \<notin> set content"
    and "\<not> sublist ''\<newline>\<newline>\<newline>'' content"
  shows "length (split_into_pages content) = (length content + 2999) div 3000
       \<and> (\<forall>c \<in> set (butlast (split_into_pages content)). length c = 3000)
       \<and> concat (split_into_pages content) = content"
proof -
  note w = split_into_pages_windows [OF assms(2) assms(3) assms(1)]
  have "length (split_into_pages content) = (length content + 2999) div 3000"
    unfolding w using range_step_length [of 3000 0 "length content"] by simp
  moreover have "\<forall>c \<in> set (butlast (split_into_pages content)). length c = 3000"
    unfolding w using range_step_full_windows [of 3000 content 0] by simp
  moreover have "concat (split_into_pages content) = content"
    unfolding w using range_step_concat [of 3000 content 0] by simp
  ultimately show ?thesis by blast
qed

theorem fixed_window_segmentation_witness:
  "3000 < length (replicate 3001 (CHR ''a''))
   \<and> CHR 0x0C \<notin> set (replicate 3001 (CHR ''a''))
   \<and> \<not> sublist ''\<newline>\<newline>\<newline>'' (replicate 3001 (CHR ''a''))
   \<and> length (split_into_pages (replicate 3001 (CHR ''a''))) = 2
   \<and> concat (split_into_pages (replicate 3001 (CHR ''a''))) = replicate 3001 (CHR ''a'')"
proof -
  have h1: "3000 < length (replicate 3001 (CHR ''a''))" by simp
  have h2: "CHR 0x0C \<notin> set (replicate 3001 (CHR ''a''))" by simp
  have h3: "\<not> sublist ''\<newline>\<newline>\<newline>'' (replicate 3001 (CHR ''a''))"
    using set_mono_sublist [of "''\<newline>\<newline>\<newline>''" "replicate 3001 (CHR ''a'')"] by auto
  from fixed_window_segmentation [OF h1 h2 h3] h1 h2 h3 show ?thesis by simp
qed

section \<open>More facts about strip, split and the page loop\<close>

lemma dropWhile_append_stop:
  "\<forall>c \<in> set ws. \<not> P c \<Longrightarrow> dropWhile P (r @ ws) = dropWhile P r @ ws"
  by (induction r) (auto simp: dropWhile_eq_self_iff intro: dropWhile_eq_self_iff [THEN iffD2] simp: neq_Nil_conv)

lemma takeWhile_append_stop:
  "\<forall>c \<in> set ws. \<not> P c \<Longrightarrow> takeWhile P (r @ ws) = takeWhile P r"
  by (induction r) (auto simp: takeWhile_eq_Nil_iff neq_Nil_conv)

lemma py_split_ws_Nil: "(py_split_ws s = []) = (\<forall>c \<in> set s. isspace c)"
  by (subst py_split_ws.simps) (simp add: dropWhile_eq_Nil_conv)

lemma py_split_ws_lstrip: "py_split_ws (dropWhile isspace s) = py_split_ws s"
  by (subst py_split_ws.simps, subst (2) py_split_ws.simps) (simp add: dropWhile_idem)

lemma py_split_ws_append_space:
  "\<forall>c \<in> set ws. isspace c \<Longrightarrow> py_split_ws (t @ ws) = py_split_ws t"
proof (induction t rule: py_split_ws.induct)
  case (1 s)
  show ?case
  proof (cases "dropWhile isspace s = []")
    case True
    then have "\<forall>c \<in> set (s @ ws). isspace c"
      using "1.prems" by (auto simp: dropWhile_eq_Nil_conv)
    then have "py_split_ws (s @ ws) = []"
      by (simp only: py_split_ws_Nil)
    moreover have "py_split_ws s = []"
      using True by (simp add: py_split_ws_Nil dropWhile_eq_Nil_conv)
    ultimately show ?thesis by simp
  next
    case False
    then have ex: "\<not> (\<forall>c \<in> set s. isspace c)"
      by (simp add: dropWhile_eq_Nil_conv)
    then have d: "dropWhile isspace (s @ ws) = dropWhile isspace s @ ws"
      by (auto simp: dropWhile_append)
    have ws: "\<forall>c \<in> set ws. \<not> (\<not> isspace c)" using "1.prems" by simp
    have IH: "py_split_ws (dropWhile (\<lambda>c. \<not> isspace c) (dropWhile isspace s) @ ws)
            = py_split_ws (dropWhile (\<lambda>c. \<not> isspace c) (dropWhile isspace s))"
      using "1.IH" [OF False "1.prems"] .
    have "py_split_ws (s @ ws) =
            takeWhile (\<lambda>c. \<not> isspace c) (dropWhile isspace s)
            # py_split_ws (dropWhile (\<lambda>c. \<not> isspace c) (dropWhile isspace s) @ ws)"
      using False
      by (subst py_split_ws.simps)
         (simp add: d dropWhile_append_stop [OF ws] takeWhile_append_stop [OF ws])
    also have "\<dots> = py_split_ws s"
      using False by (subst (2) py_split_ws.simps) (simp add: IH)
    finally show ?thesis .
  qed
qed

lemma py_split_ws_strip: "py_split_ws (py_strip s) = py_split_ws s"
proof -
  define u where "u = dropWhile isspace s"
  have "u = rev (dropWhile isspace (rev u)) @ rev (takeWhile isspace (rev u))"
    by (metis rev_append rev_rev_ident takeWhile_dropWhile_id)
  moreover have "\<forall>c \<in> set (rev (takeWhile isspace (rev u))). isspace c"
    by (auto dest: set_takeWhileD)
  ultimately have "py_split_ws u = py_split_ws (rev (dropWhile isspace (rev u)))"
    using py_split_ws_append_space by metis
  then show ?thesis
    by (simp add: py_strip_def u_def py_split_ws_lstrip)
qed

lemma py_strip_Nil: "(py_strip s = []) = (\<forall>c \<in> set s. isspace c)"
proof
  assume "py_strip s = []"
  then have a: "\<forall>c \<in> set (dropWhile isspace s). isspace c"
    by (simp add: py_strip_def dropWhile_eq_Nil_conv)
  show "\<forall>c \<in> set s. isspace c"
  proof (cases "dropWhile isspace s")
    case Nil
    then show ?thesis by (simp add: dropWhile_eq_Nil_conv)
  next
    case (Cons c cs)
    then have "\<not> isspace c"
      using hd_dropWhile [of isspace s] by simp
    with a Cons show ?thesis by simp
  qed
next
  assume "\<forall>c \<in> set s. isspace c"
  then have d: "dropWhile isspace s = []"
    by (simp add: dropWhile_eq_Nil_conv)
  show "py_strip s = []"
    unfolding py_strip_def d by simp
qed

lemma py_strip_trimmed: "trimmed (py_strip s)"
proof (cases "py_strip s = []")
  case True
  then show ?thesis by (simp add: trimmed_def)
next
  case False
  define u where "u = dropWhile isspace s"
  define v where "v = dropWhile isspace (rev u)"
  have sv: "py_strip s = rev v" by (simp add: py_strip_def u_def v_def)
  with False have vne: "v \<noteq> []" by simp
  then have "\<not> isspace (hd v)"
    unfolding v_def by (rule hd_dropWhile)
  then have l: "\<not> isspace (last (py_strip s))"
    using vne by (simp add: sv last_rev)
  have "rev u = takeWhile isspace (rev u) @ v"
    by (simp add: v_def)
  then have "u = rev v @ rev (takeWhile isspace (rev u))"
    by (metis rev_append rev_rev_ident)
  then have "hd u = hd (rev v)"
    using vne by (metis hd_append2 rev_is_Nil_conv)
  moreover have "u \<noteq> []" using vne v_def by auto
  then have "\<not> isspace (hd u)"
    unfolding u_def by (rule hd_dropWhile)
  ultimately have "\<not> isspace (hd (py_strip s))" by (simp add: sv)
  with l show ?thesis by (simp add: trimmed_def)
qed

lemma trimmed_strip_id: "trimmed s \<Longrightarrow> py_strip s = s"
proof (cases "s = []")
  case True
  then show ?thesis by (simp add: py_strip_def)
next
  case False
  assume "trimmed s"
  with False have h: "\<not> isspace (hd s)" and l: "\<not> isspace (last s)"
    by (auto simp: trimmed_def)
  from h False have "dropWhile isspace s = s"
    by (cases s) auto
  moreover from l False have "dropWhile isspace (rev s) = rev s"
    by (cases "rev s") (auto simp: last_rev [symmetric] hd_rev)
  ultimately show ?thesis by (simp add: py_strip_def)
qed

lemma for_range_length: "for_range body is = Inr ps \<Longrightarrow> length ps = length is"
  by (induction "is" arbitrary: ps) (auto split: sum.splits)

lemma for_range_pages:
  "for_range body is = Inr ps \<Longrightarrow> p \<in> set ps \<Longrightarrow> \<exists>i \<in> set is. body i = Inr p"
  by (induction "is" arbitrary: ps) (auto split: sum.splits)

lemma for_range_total:
  "(\<And>i. i \<in> set is \<Longrightarrow> \<exists>p. body i = Inr p) \<Longrightarrow> \<exists>ps. for_range body is = Inr ps"
proof (induction "is")
  case Nil
  show ?case by simp
next
  case (Cons i "is")
  then obtain p ps where "body i = Inr p" "for_range body is = Inr ps"
    by (metis list.set_intros)
  then show ?case by simp
qed

lemma str_join_ends:
  "xs \<noteq> [] \<Longrightarrow> \<forall>x \<in> set xs. x \<noteq> [] \<Longrightarrow>
   str_join sep xs \<noteq> [] \<and> hd (str_join sep xs) = hd (hd xs)
   \<and> last (str_join sep xs) = last (last xs)"
  by (induction sep xs rule: str_join.induct) auto


section \<open>What the strategies return\<close>

lemma stripped_page_wf:
  "well_formed_page (new_page_content i (py_strip s)
      (if py_strip s \<noteq> [] then int (length (py_split_ws s)) else 0) tbls)"
  by (simp add: well_formed_page_def new_page_content_def py_strip_trimmed py_split_ws_Nil
      py_strip_Nil py_split_ws_strip)

lemma pdfplumber_page_shape:
  "pdfplumber_page options pdf_pages i = Inr pc \<Longrightarrow>
   \<exists>s tbls. pc = new_page_content i (py_strip s)
      (if py_strip s \<noteq> [] then int (length (py_split_ws s)) else 0) tbls"
  by (cases "extract_tables options")
     (auto simp: pdfplumber_page_def Let_def split: sum.splits split del: if_split)

lemma pdfplumber_page_wf: "pdfplumber_page options pdf_pages i = Inr pc \<Longrightarrow> well_formed_page pc"
  using stripped_page_wf by (auto dest!: pdfplumber_page_shape simp del: py_strip_def)

lemma pymupdf_page_wf: "pymupdf_page doc i = Inr pc \<Longrightarrow> well_formed_page pc"
  using stripped_page_wf
  by (auto simp: pymupdf_page_def split: sum.splits split del: if_split)

lemma txt_page_wf: "txt_page pages_text i = Inr pc \<Longrightarrow> well_formed_page pc"
  using stripped_page_wf [of i "py_strip raw" "[]" for raw]
  by (auto simp: txt_page_def trimmed_strip_id [OF py_strip_trimmed] split: sum.splits
      split del: if_split)

lemma docx_page_wf:
  assumes "docx_page pages_text i = Inr pc" and "\<forall>t \<in> set pages_text. trimmed t"
  shows "well_formed_page pc"
proof -
  from assms(1) have i: "i < length pages_text"
    and pc: "pc = new_page_content i (pages_text ! i)
       (if pages_text ! i \<noteq> [] then int (length (py_split_ws (pages_text ! i))) else 0) []"
    by (auto simp: docx_page_def list_get_def split: if_splits)
  from i assms(2) have "trimmed (pages_text ! i)" by simp
  then have "py_strip (pages_text ! i) = pages_text ! i" by (rule trimmed_strip_id)
  with stripped_page_wf [of i "pages_text ! i" "[]"] pc show ?thesis by simp
qed

lemma txt_page_total: "i < length pages_text \<Longrightarrow> \<exists>pc. txt_page pages_text i = Inr pc"
  by (simp add: txt_page_def list_get_def)

lemma docx_page_total: "i < length pages_text \<Longrightarrow> \<exists>pc. docx_page pages_text i = Inr pc"
  by (simp add: docx_page_def list_get_def)

lemma cap_le: "cap mp n \<le> n"
  by (simp add: cap_def)


lemma cap_zero: "cap (Some 0) n = n"
  by (simp add: cap_def py_or_int_def)


lemma extract_with_pdfplumber_Inr:
  assumes "extract_with_pdfplumber w p options = Inr r"
  shows "\<exists>pdf_pages. pdfplumber_open w p = Inr pdf_pages
     \<and> for_range (pdfplumber_page options pdf_pages)
         (py_range (cap (max_pages options) (int (length pdf_pages)))) = Inr (pages r)
     \<and> total_pages (metadata r) = int (length pdf_pages)
     \<and> pages_processed (metadata r) = cap (max_pages options) (int (length pdf_pages))
     \<and> extraction_method (metadata r) = ''pdfplumber''
     \<and> success r \<and> error_message r = None"
  using assms
  by (auto simp: extract_with_pdfplumber_def Let_def cap_def split: sum.splits)

lemma extract_with_pymupdf_Inr:
  assumes "extract_with_pymupdf w p options = Inr r"
  shows "\<exists>doc. fitz_open w p = Inr doc
     \<and> for_range (pymupdf_page doc)
         (py_range (cap (max_pages options) (int (length doc)))) = Inr (pages r)
     \<and> total_pages (metadata r) = int (length doc)
     \<and> pages_processed (metadata r) = cap (max_pages options) (int (length doc))
     \<and> extraction_method (metadata r) = ''pymupdf''
     \<and> success r \<and> error_message r = None"
  using assms
  by (auto simp: extract_with_pymupdf_def Let_def cap_def split: sum.splits)

lemma TXT_try_Inr:
  assumes "TXT_try w p options = Inr r"
  shows "\<exists>content. fs_read w p (encoding options) (error_handling options) = Inr content
     \<and> for_range (txt_page (split_into_pages content))
         (py_range (cap (max_pages options) (int (length (split_into_pages content)))))
         = Inr (pages r)
     \<and> total_pages (metadata r) = int (length (split_into_pages content))
     \<and> pages_processed (metadata r)
         = cap (max_pages options) (int (length (split_into_pages content)))
     \<and> extraction_method (metadata r) = ''plain_text''
     \<and> success r \<and> error_message r = None"
  using assms
  by (auto simp: TXT_try_def Let_def cap_def split: sum.splits)

lemma DOCX_try_Inr:
  assumes "DOCX_try w p options = Inr r"
  shows "\<exists>paragraphs. docx_Document w p = Inr paragraphs
     \<and> for_range (docx_page (group_into_pages paragraphs))
         (py_range (cap (max_pages options) (int (length (group_into_pages paragraphs)))))
         = Inr (pages r)
     \<and> total_pages (metadata r) = int (length (group_into_pages paragraphs))
     \<and> pages_processed (metadata r)
         = cap (max_pages options) (int (length (group_into_pages paragraphs)))
     \<and> extraction_method (metadata r) = ''python_docx''
     \<and> success r \<and> error_message r = None"
  using assms
  by (auto simp: DOCX_try_def Let_def cap_def split: sum.splits)

lemma create_error_metadata_Inr:
  assumes "fs_exists w p = Inr found"
  shows "\<exists>md. create_error_metadata doc_type w p = Inr md
     \<and> total_pages md = 0 \<and> pages_processed md = 0 \<and> extraction_method md = ''failed''
     \<and> document_type md = DocumentType_value doc_type
     \<and> file_size md = (if found then fs_size w p else 0)"
  using assms by (simp add: create_error_metadata_def Path_stat_size_def)

lemma failure_result_Inr:
  assumes "fs_exists w p = Inr found"
  shows "\<exists>r. failure_result doc_type label w p e = Inr r
     \<and> pages r = [] \<and> \<not> success r
     \<and> error_message r = Some (label @ '' extraction failed: '' @ str_of_exn e)
     \<and> total_pages (metadata r) = 0 \<and> pages_processed (metadata r) = 0
     \<and> extraction_method (metadata r) = ''failed''
     \<and> document_type (metadata r) = DocumentType_value doc_type"
  using create_error_metadata_Inr [OF assms, of doc_type]
  by (auto simp: failure_result_def)

lemma failure_result_raises:
  "fs_exists w p = Inl x \<Longrightarrow> failure_result doc_type label w p e = Inl x"
  by (simp add: failure_result_def create_error_metadata_def)

section \<open>Paragraph grouping\<close>

lemma str_join_trimmed:
  assumes "xs \<noteq> []" and "\<forall>x \<in> set xs. x \<noteq> [] \<and> trimmed x"
  shows "str_join sep xs \<noteq> [] \<and> trimmed (str_join sep xs)"
proof -
  from assms have e: "str_join sep xs \<noteq> []" "hd (str_join sep xs) = hd (hd xs)"
    "last (str_join sep xs) = last (last xs)"
    using str_join_ends [of xs sep] by auto
  from assms have "hd xs \<in> set xs" "last xs \<in> set xs" by auto
  with assms(2) have "\<not> isspace (hd (hd xs))" "\<not> isspace (last (last xs))"
    by (auto simp: trimmed_def)
  with e show ?thesis by (simp add: trimmed_def)
qed

lemma group_loop_trimmed:
  assumes "group_loop pgs cur ps = (pgs', cur')"
    and "\<forall>t \<in> set pgs. t \<noteq> [] \<and> trimmed t"
    and "\<forall>x \<in> set cur. x \<noteq> [] \<and> trimmed x"
  shows "(\<forall>t \<in> set pgs'. t \<noteq> [] \<and> trimmed t) \<and> (\<forall>x \<in> set cur'. x \<noteq> [] \<and> trimmed x)"
  using assms
proof (induction ps arbitrary: pgs cur)
  case Nil
  then show ?case by simp
next
  case (Cons para rest)
  show ?case
  proof (cases "py_strip para \<noteq> []")
    case True
    with Cons.prems(1) have g: "group_loop pgs (cur @ [py_strip para]) rest = (pgs', cur')"
      by simp
    have "trimmed (py_strip para)" by (rule py_strip_trimmed)
    with True Cons.prems(3)
    have c: "\<forall>x \<in> set (cur @ [py_strip para]). x \<noteq> [] \<and> trimmed x"
      by simp
    show ?thesis
      by (rule Cons.IH [OF g Cons.prems(2) c])
  next
    case blank: False
    show ?thesis
    proof (cases "cur \<noteq> []")
      case True
      with blank Cons.prems(1)
      have g: "group_loop (pgs @ [str_join ''\<newline>'' cur]) [] rest = (pgs', cur')"
        by simp
      from str_join_trimmed [OF True Cons.prems(3)] Cons.prems(2)
      have p: "\<forall>t \<in> set (pgs @ [str_join ''\<newline>'' cur]). t \<noteq> [] \<and> trimmed t"
        by simp
      have c: "\<forall>x \<in> set ([] :: string list). x \<noteq> [] \<and> trimmed x"
        by simp
      show ?thesis
        by (rule Cons.IH [OF g p c])
    next
      case False
      with blank Cons.prems(1) have g: "group_loop pgs cur rest = (pgs', cur')"
        by simp
      show ?thesis
        by (rule Cons.IH [OF g Cons.prems(2) Cons.prems(3)])
    qed
  qed
qed

lemma group_loop_nothing:
  "group_loop pgs cur ps = ([], []) \<Longrightarrow> pgs = [] \<and> cur = [] \<and> filter nonblank ps = []"
proof (induction ps arbitrary: pgs cur)
  case Nil
  then show ?case by simp
next
  case (Cons para rest)
  show ?case
  proof (cases "py_strip para \<noteq> []")
    case True
    with Cons.prems have "group_loop pgs (cur @ [py_strip para]) rest = ([], [])"
      by simp
    from Cons.IH [OF this] show ?thesis by simp
  next
    case blank: False
    show ?thesis
    proof (cases "cur \<noteq> []")
      case True
      with blank Cons.prems
      have "group_loop (pgs @ [str_join ''\<newline>'' cur]) [] rest = ([], [])"
        by simp
      from Cons.IH [OF this] show ?thesis by simp
    next
      case False
      with blank Cons.prems have "group_loop pgs cur rest = ([], [])"
        by simp
      from Cons.IH [OF this] blank show ?thesis
        by (simp add: nonblank_def)
    qed
  qed
qed

lemma group_into_pages_unfold:
  assumes "group_loop [] [] paragraphs = (pgs, cur)"
  shows "group_into_pages paragraphs =
         (if cur \<noteq> [] then pgs @ [str_join ''\<newline>'' cur]
          else if pgs \<noteq> [] then pgs else [[]])"
proof (cases "cur \<noteq> []")
  case True
  with assms show ?thesis
    by (simp add: group_into_pages_def)
next
  case False
  show ?thesis
  proof (cases "pgs = []")
    case True
    with False assms have "filter nonblank paragraphs = []"
      using group_loop_nothing [of "[]" "[]" paragraphs] by simp
    with True False assms show ?thesis
      by (simp add: group_into_pages_def)
  next
    case ne: False
    with False assms show ?thesis
      by (simp add: group_into_pages_def)
  qed
qed

lemma group_into_pages_trimmed: "\<forall>t \<in> set (group_into_pages paragraphs). trimmed t"
proof -
  obtain pgs cur where g: "group_loop [] [] paragraphs = (pgs, cur)"
    by (cases "group_loop [] [] paragraphs")
  from group_loop_trimmed [OF g] have
    p: "\<forall>t \<in> set pgs. t \<noteq> [] \<and> trimmed t" and c: "\<forall>x \<in> set cur. x \<noteq> [] \<and> trimmed x"
    by simp_all
  have e: "trimmed []" by (simp add: trimmed_def)
  show ?thesis
  proof (cases "cur \<noteq> []")
    case True
    from str_join_trimmed [OF True c] have "trimmed (str_join ''\<newline>'' cur)" by simp
    with True p show ?thesis
      unfolding group_into_pages_unfold [OF g] by simp
  next
    case False
    with p e show ?thesis
      unfolding group_into_pages_unfold [OF g] by simp
  qed
qed

lemma group_into_pages_not_Nil: "group_into_pages paragraphs \<noteq> []"
proof -
  obtain pgs cur where g: "group_loop [] [] paragraphs = (pgs, cur)"
    by (cases "group_loop [] [] paragraphs")
  show ?thesis
    unfolding group_into_pages_unfold [OF g] by simp
qed

section \<open>Results of the engine and of the strategies\<close>

lemmas sample_defs = sample_world_def sample_path_def default_options_def long_name_def
  name_too_long_def

text \<open>
  Where \<open>exists()\<close> returns, the handler of the PDF strategy builds the failure result
  from the primary exception, and the engine answers a missing file at once.
\<close>

lemma pdf_double_failure_when_exists_returns:
  assumes "extract_with_pdfplumber w file_path options = Inl e"
    and "extract_with_pymupdf w file_path options = Inl fallback_error"
    and "fs_exists w file_path = Inr found"
  shows "\<exists>r. PDF_extract_text w file_path options = Inr r
       \<and> \<not> success r \<and> pages r = []
       \<and> extraction_method (metadata r) = ''failed''
       \<and> total_pages (metadata r) = 0 \<and> pages_processed (metadata r) = 0
       \<and> error_message r = Some (''PDF extraction failed: '' @ str_of_exn e)"
  using assms(1,2) failure_result_Inr [OF assms(3), of PDF "''PDF''" e]
  by (auto simp: PDF_extract_text_def)

lemma pdf_double_failure_sample:
  "\<exists>r. PDF_extract_text sample_world (sample_path ''broken.pdf'') default_options = Inr r
       \<and> \<not> success r \<and> pages r = []
       \<and> error_message r = Some ''PDF extraction failed: No /Root object''"
proof -
  have h1: "extract_with_pdfplumber sample_world (sample_path ''broken.pdf'') default_options
     = Inl (Exception ''No /Root object'')"
    by (simp add: extract_with_pdfplumber_def sample_defs)
  have h2: "extract_with_pymupdf sample_world (sample_path ''broken.pdf'') default_options
     = Inl (Exception ''cannot open document'')"
    by (simp add: extract_with_pymupdf_def sample_defs)
  have h3: "fs_exists sample_world (sample_path ''broken.pdf'') = Inr True"
    by (simp add: sample_defs)
  from pdf_double_failure_when_exists_returns [OF h1 h2 h3] show ?thesis by auto
qed

lemma engine_file_not_found:
  assumes "fs_exists w file_path = Inr False"
  shows "engine_extract_text procs w file_path opts =
         Inr \<lparr>metadata =
                \<lparr>filename = path_name file_path, file_size = 0, total_pages = 0,
                 pages_processed = 0, extraction_timestamp = clock_iso w,
                 extraction_method = ''failed'', processing_time = 0,
                 document_type = ''unknown''\<rparr>,
              pages = [], success = False, error_message = Some ''File not found''\<rparr>"
  using assms by (simp add: engine_extract_text_def)

lemma engine_exists_raises:
  "fs_exists w file_path = Inl x \<Longrightarrow> engine_extract_text procs w file_path opts = Inl x"
  by (simp add: engine_extract_text_def)

text \<open>
  C5. On Python 3.11 \<open>Path.exists()\<close> raises for a name of 300 characters. Both PDF
  backends fail to open such a path, and the handler of the PDF strategy then calls
  \<open>_create_error_metadata\<close>, whose \<open>exists()\<close> raises in turn: the strategy ends with that
  exception and returns no failure result.
\<close>

theorem pdf_double_failure_raises:
  "extract_with_pdfplumber sample_world (sample_path (long_name ''.pdf'')) default_options
     = Inl name_too_long
   \<and> extract_with_pymupdf sample_world (sample_path (long_name ''.pdf'')) default_options
     = Inl (Exception ''cannot open file'')
   \<and> PDF_extract_text sample_world (sample_path (long_name ''.pdf'')) default_options
     = Inl name_too_long"
  by code_simp

text \<open>
  C7. A name of 300 characters references no file, and \<open>Path.exists()\<close> raises for it on
  Python 3.11. The engine calls \<open>exists()\<close> outside any \<open>try\<close>: it ends with that exception
  and returns no \<open>File not found\<close> result.
\<close>

theorem missing_file_raises:
  "fs_exists sample_world (sample_path (long_name ''.txt'')) = Inl name_too_long
   \<and> DocParseEngine_extract_text sample_world (sample_path (long_name ''.txt'')) None
     = Inl name_too_long"
  by code_simp

lemma DocumentType_of_Inl:
  "v \<notin> {''pdf'', ''txt'', ''docx''} \<Longrightarrow> \<exists>e. DocumentType_of v = Inl e"
  by (simp add: DocumentType_of_def)

text \<open>
  C8, as amended. For an existing file whose lower-cased extension is none of \<open>pdf\<close>,
  \<open>txt\<close>, \<open>docx\<close> the engine returns at once a failure whose \<open>document_type\<close> is that
  lower-cased extension, without the dot, and whose page counts are zero. The result is
  the same whatever the registered processors are: none of them is called.
\<close>

theorem unsupported_extension_result:
  assumes "fs_exists w file_path = Inr True"
    and "file_extension file_path \<notin> {''pdf'', ''txt'', ''docx''}"
  shows "engine_extract_text procs w file_path opts =
         Inr \<lparr>metadata =
                \<lparr>filename = path_name file_path, file_size = fs_size w file_path,
                 total_pages = 0, pages_processed = 0, extraction_timestamp = clock_iso w,
                 extraction_method = ''failed'', processing_time = 0,
                 document_type = file_extension file_path\<rparr>,
              pages = [], success = False,
              error_message = Some (''Unsupported file type: '' @ file_extension file_path)\<rparr>"
  using assms DocumentType_of_Inl [OF assms(2)]
  by (auto simp: engine_extract_text_def Path_stat_size_def)

lemma ext_xyz: "file_extension (sample_path ''report.xyz'') = ''xyz''"
  by (simp add: file_extension_def Path_suffix_def py_lower_def py_lstrip_def lower_char_def sample_path_def)

lemma ext_XYZ: "file_extension (sample_path ''REPORT.XYZ'') = ''xyz''"
  by code_simp


lemma py_range_length: "0 \<le> n \<Longrightarrow> int (length (py_range n)) = n"
  by (simp add: py_range_def)

lemma py_range_bound: "i \<in> set (py_range (cap mp n)) \<Longrightarrow> int i < n"
  using cap_le [of mp n] by (auto simp: py_range_def)

lemma pdfplumber_page_max_pages:
  "pdfplumber_page (options\<lparr>max_pages := m\<rparr>) = pdfplumber_page options"
  by (rule ext, rule ext) (simp add: pdfplumber_page_def Let_def split: sum.splits)

lemma PDF_extract_text_cases:
  assumes "PDF_extract_text w p options = Inr r"
  shows "extract_with_pdfplumber w p options = Inr r
       \<or> (\<exists>e. extract_with_pdfplumber w p options = Inl e
              \<and> extract_with_pymupdf w p options = Inr r)
       \<or> (\<exists>e fe. extract_with_pdfplumber w p options = Inl e
              \<and> extract_with_pymupdf w p options = Inl fe
              \<and> failure_result PDF ''PDF'' w p e = Inr r)"
  using assms by (auto simp: PDF_extract_text_def split: sum.splits)

lemma TXT_extract_text_cases:
  assumes "TXT_extract_text w p options = Inr r"
  shows "TXT_try w p options = Inr r
       \<or> (\<exists>e. TXT_try w p options = Inl e \<and> failure_result TXT ''TXT'' w p e = Inr r)"
  using assms by (auto simp: TXT_extract_text_def split: sum.splits)

lemma DOCX_extract_text_cases:
  assumes "DOCX_extract_text w p options = Inr r"
  shows "DOCX_try w p options = Inr r
       \<or> (\<exists>e. DOCX_try w p options = Inl e \<and> failure_result DOCX ''DOCX'' w p e = Inr r)"
  using assms by (auto simp: DOCX_extract_text_def split: sum.splits)

lemma failure_result_fields:
  assumes "failure_result doc_type label w p e = Inr r"
  shows "pages r = [] \<and> \<not> success r
     \<and> error_message r = Some (label @ '' extraction failed: '' @ str_of_exn e)
     \<and> total_pages (metadata r) = 0 \<and> pages_processed (metadata r) = 0
     \<and> extraction_method (metadata r) = ''failed''"
  using assms
  by (auto simp: failure_result_def create_error_metadata_def split: sum.splits)

lemma strategy_success:
  assumes "PDF_extract_text w p options = Inr r \<or> TXT_extract_text w p options = Inr r
           \<or> DOCX_extract_text w p options = Inr r"
    and "success r"
  shows "0 \<le> total_pages (metadata r)
     \<and> pages_processed (metadata r) = cap (max_pages options) (total_pages (metadata r))
     \<and> length (pages r) = nat (pages_processed (metadata r))
     \<and> error_message r = None"
proof -
  from assms have
    "extract_with_pdfplumber w p options = Inr r \<or> extract_with_pymupdf w p options = Inr r
     \<or> TXT_try w p options = Inr r \<or> DOCX_try w p options = Inr r"
    using PDF_extract_text_cases [of w p options r] TXT_extract_text_cases [of w p options r]
      DOCX_extract_text_cases [of w p options r] failure_result_fields
    by blast
  then show ?thesis
  proof (elim disjE)
    assume "extract_with_pdfplumber w p options = Inr r"
    from extract_with_pdfplumber_Inr [OF this] show ?thesis
      by (auto dest: for_range_length simp: py_range_def)
  next
    assume "extract_with_pymupdf w p options = Inr r"
    from extract_with_pymupdf_Inr [OF this] show ?thesis
      by (auto dest: for_range_length simp: py_range_def)
  next
    assume "TXT_try w p options = Inr r"
    from TXT_try_Inr [OF this] show ?thesis
      by (auto dest: for_range_length simp: py_range_def)
  next
    assume "DOCX_try w p options = Inr r"
    from DOCX_try_Inr [OF this] show ?thesis
      by (auto dest: for_range_length simp: py_range_def)
  qed
qed

lemma strategy_failure:
  assumes "PDF_extract_text w p options = Inr r \<or> TXT_extract_text w p options = Inr r
           \<or> DOCX_extract_text w p options = Inr r"
    and "\<not> success r"
  shows "pages r = [] \<and> error_message r \<noteq> None
     \<and> total_pages (metadata r) = 0 \<and> pages_processed (metadata r) = 0"
proof -
  from assms have "\<exists>doc_type label e. failure_result doc_type label w p e = Inr r"
    using PDF_extract_text_cases [of w p options r] TXT_extract_text_cases [of w p options r]
      DOCX_extract_text_cases [of w p options r]
      extract_with_pdfplumber_Inr [of w p options r] extract_with_pymupdf_Inr [of w p options r]
      TXT_try_Inr [of w p options r] DOCX_try_Inr [of w p options r]
    by blast
  then show ?thesis
    using failure_result_fields by fastforce
qed

theorem unsupported_extension_result_witness:
  "fs_exists sample_world (sample_path ''report.xyz'') = Inr True
   \<and> file_extension (sample_path ''report.xyz'') \<notin> {''pdf'', ''txt'', ''docx''}
   \<and> DocParseEngine_extract_text sample_world (sample_path ''report.xyz'') None =
       Inr \<lparr>metadata =
              \<lparr>filename = ''report.xyz'', file_size = 42, total_pages = 0,
               pages_processed = 0, extraction_timestamp = ''2024-05-01T09:30:00'',
               extraction_method = ''failed'', processing_time = 0,
               document_type = ''xyz''\<rparr>,
            pages = [], success = False,
            error_message = Some ''Unsupported file type: xyz''\<rparr>"
proof -
  have h1: "fs_exists sample_world (sample_path ''report.xyz'') = Inr True"
    by (simp add: sample_defs)
  have h2: "file_extension (sample_path ''report.xyz'') \<notin> {''pdf'', ''txt'', ''docx''}"
    by (simp add: ext_xyz)
  from unsupported_extension_result [OF h1 h2, of processors None] h1 h2 show ?thesis
    by (simp add: DocParseEngine_extract_text_def ext_xyz) (simp add: sample_defs)
qed

lemma raw_XYZ: "raw_extension (sample_path ''REPORT.XYZ'') = ''XYZ''"
  by (simp add: raw_extension_def Path_suffix_def py_lstrip_def sample_path_def)

text \<open>
  The engine lower-cases the extension before it stores it: for \<open>REPORT.XYZ\<close> the
  extension as written is \<open>XYZ\<close>, the stored document type is \<open>xyz\<close>.
\<close>

theorem raw_extension_counterexample:
  "fs_exists sample_world (sample_path ''REPORT.XYZ'') = Inr True
   \<and> py_lower (raw_extension (sample_path ''REPORT.XYZ'')) \<notin> {''pdf'', ''txt'', ''docx''}
   \<and> raw_extension (sample_path ''REPORT.XYZ'') = ''XYZ''
   \<and> map_sum str_of_exn (\<lambda>r. document_type (metadata r))
         (DocParseEngine_extract_text sample_world (sample_path ''REPORT.XYZ'') None)
       = Inr ''xyz''"
  by code_simp

lemma py_or_zero: "py_or_int (Some 0) n = py_or_int None n"
  by (simp add: py_or_int_def)

lemma extract_with_pdfplumber_zero:
  "extract_with_pdfplumber w p (options\<lparr>max_pages := Some 0\<rparr>)
   = extract_with_pdfplumber w p (options\<lparr>max_pages := None\<rparr>)"
  by (simp add: extract_with_pdfplumber_def py_or_zero pdfplumber_page_max_pages Let_def cong: sum.case_cong)

lemma extract_with_pymupdf_zero:
  "extract_with_pymupdf w p (options\<lparr>max_pages := Some 0\<rparr>)
   = extract_with_pymupdf w p (options\<lparr>max_pages := None\<rparr>)"
  by (simp add: extract_with_pymupdf_def py_or_zero Let_def cong: sum.case_cong)

lemma TXT_try_zero:
  "TXT_try w p (options\<lparr>max_pages := Some 0\<rparr>) = TXT_try w p (options\<lparr>max_pages := None\<rparr>)"
  by (simp add: TXT_try_def py_or_zero Let_def cong: sum.case_cong)

lemma DOCX_try_zero:
  "DOCX_try w p (options\<lparr>max_pages := Some 0\<rparr>) = DOCX_try w p (options\<lparr>max_pages := None\<rparr>)"
  by (simp add: DOCX_try_def py_or_zero Let_def cong: sum.case_cong)

text \<open>
  C10. With \<open>max_pages = 0\<close> every strategy returns what it returns with \<open>max_pages\<close>
  unset; a successful result then has \<open>pages_processed = total_pages\<close> and as many pages.
\<close>

theorem zero_max_pages_is_unset:
  "PDF_extract_text w p (options\<lparr>max_pages := Some 0\<rparr>)
     = PDF_extract_text w p (options\<lparr>max_pages := None\<rparr>)
   \<and> TXT_extract_text w p (options\<lparr>max_pages := Some 0\<rparr>)
     = TXT_extract_text w p (options\<lparr>max_pages := None\<rparr>)
   \<and> DOCX_extract_text w p (options\<lparr>max_pages := Some 0\<rparr>)
     = DOCX_extract_text w p (options\<lparr>max_pages := None\<rparr>)
   \<and> ((PDF_extract_text w p (options\<lparr>max_pages := Some 0\<rparr>) = Inr r
        \<or> TXT_extract_text w p (options\<lparr>max_pages := Some 0\<rparr>) = Inr r
        \<or> DOCX_extract_text w p (options\<lparr>max_pages := Some 0\<rparr>) = Inr r)
       \<and> success r
       \<longrightarrow> pages_processed (metadata r) = total_pages (metadata r)
           \<and> int (length (pages r)) = total_pages (metadata r))"
proof -
  have a: "PDF_extract_text w p (options\<lparr>max_pages := Some 0\<rparr>)
     = PDF_extract_text w p (options\<lparr>max_pages := None\<rparr>)"
    by (simp add: PDF_extract_text_def extract_with_pdfplumber_zero extract_with_pymupdf_zero
        cong: sum.case_cong)
  have b: "TXT_extract_text w p (options\<lparr>max_pages := Some 0\<rparr>)
     = TXT_extract_text w p (options\<lparr>max_pages := None\<rparr>)"
    by (simp add: TXT_extract_text_def TXT_try_zero)
  have c: "DOCX_extract_text w p (options\<lparr>max_pages := Some 0\<rparr>)
     = DOCX_extract_text w p (options\<lparr>max_pages := None\<rparr>)"
    by (simp add: DOCX_extract_text_def DOCX_try_zero)
  have d: "pages_processed (metadata r) = total_pages (metadata r)
           \<and> int (length (pages r)) = total_pages (metadata r)"
    if "PDF_extract_text w p (options\<lparr>max_pages := Some 0\<rparr>) = Inr r
        \<or> TXT_extract_text w p (options\<lparr>max_pages := Some 0\<rparr>) = Inr r
        \<or> DOCX_extract_text w p (options\<lparr>max_pages := Some 0\<rparr>) = Inr r"
      and "success r"
    using strategy_success [OF that] by (simp add: cap_zero)
  from a b c d show ?thesis by blast
qed


theorem zero_max_pages_is_unset_witness:
  "\<exists>r. TXT_extract_text sample_world (sample_path ''notes.txt'')
           (default_options\<lparr>max_pages := Some 0\<rparr>) = Inr r
       \<and> TXT_extract_text sample_world (sample_path ''notes.txt'')
           (default_options\<lparr>max_pages := None\<rparr>) = Inr r
       \<and> success r \<and> total_pages (metadata r) = 2
       \<and> pages_processed (metadata r) = 2 \<and> length (pages r) = 2"
proof -
  have "map_sum str_of_exn (\<lambda>r. (success r, total_pages (metadata r)))
          (TXT_extract_text sample_world (sample_path ''notes.txt'')
             (default_options\<lparr>max_pages := Some 0\<rparr>)) = Inr (True, 2)"
    by code_simp
  then obtain r where r: "TXT_extract_text sample_world (sample_path ''notes.txt'')
           (default_options\<lparr>max_pages := Some 0\<rparr>) = Inr r"
      "success r" "total_pages (metadata r) = 2"
    by (cases "TXT_extract_text sample_world (sample_path ''notes.txt'')
           (default_options\<lparr>max_pages := Some 0\<rparr>)") auto
  note z = zero_max_pages_is_unset [of sample_world "sample_path ''notes.txt''" default_options r]
  from z r have n: "TXT_extract_text sample_world (sample_path ''notes.txt'')
           (default_options\<lparr>max_pages := None\<rparr>) = Inr r"
    by simp
  from z r have c: "pages_processed (metadata r) = 2 \<and> length (pages r) = 2"
    by simp
  from r n c show ?thesis by blast
qed



lemma engine_cases:
  assumes "DocParseEngine_extract_text w p opts = Inr r"
  shows "(\<not> success r \<and> pages r = [] \<and> error_message r \<noteq> None
            \<and> total_pages (metadata r) = 0 \<and> pages_processed (metadata r) = 0)
         \<or> (\<exists>options. PDF_extract_text w p options = Inr r
               \<or> TXT_extract_text w p options = Inr r
               \<or> DOCX_extract_text w p options = Inr r)"
proof (cases "fs_exists w p")
  case (Inl x)
  with assms show ?thesis
    by (simp add: DocParseEngine_extract_text_def engine_extract_text_def)
next
  case found: (Inr found)
  show ?thesis
  proof (cases found)
    case False
    with found assms show ?thesis
      by (auto simp: DocParseEngine_extract_text_def engine_extract_text_def)
  next
    case True
    show ?thesis
    proof (cases "DocumentType_of (file_extension p)")
      case (Inl e)
      with True found assms show ?thesis
        by (auto simp: DocParseEngine_extract_text_def engine_extract_text_def
            Path_stat_size_def)
    next
      case (Inr doc_type)
      with True found assms show ?thesis
        by (cases doc_type)
           (auto simp: DocParseEngine_extract_text_def engine_extract_text_def)
    qed
  qed
qed

lemma strategy_pages_wf:
  assumes "PDF_extract_text w p options = Inr r \<or> TXT_extract_text w p options = Inr r
           \<or> DOCX_extract_text w p options = Inr r"
    and "pc \<in> set (pages r)"
  shows "well_formed_page pc"
proof -
  from assms(2) have ne: "pages r \<noteq> []" by auto
  from assms(1) ne have
    "extract_with_pdfplumber w p options = Inr r \<or> extract_with_pymupdf w p options = Inr r
     \<or> TXT_try w p options = Inr r \<or> DOCX_try w p options = Inr r"
    using PDF_extract_text_cases [of w p options r] TXT_extract_text_cases [of w p options r]
      DOCX_extract_text_cases [of w p options r] failure_result_fields
    by blast
  then show ?thesis
  proof (elim disjE)
    assume "extract_with_pdfplumber w p options = Inr r"
    from extract_with_pdfplumber_Inr [OF this] obtain pdf_pages ns where
      "for_range (pdfplumber_page options pdf_pages) ns = Inr (pages r)"
      by blast
    from for_range_pages [OF this assms(2)] show ?thesis
      using pdfplumber_page_wf by blast
  next
    assume "extract_with_pymupdf w p options = Inr r"
    from extract_with_pymupdf_Inr [OF this] obtain doc ns where
      "for_range (pymupdf_page doc) ns = Inr (pages r)"
      by blast
    from for_range_pages [OF this assms(2)] show ?thesis
      using pymupdf_page_wf by blast
  next
    assume "TXT_try w p options = Inr r"
    from TXT_try_Inr [OF this] obtain pages_text ns where
      "for_range (txt_page pages_text) ns = Inr (pages r)"
      by blast
    from for_range_pages [OF this assms(2)] show ?thesis
      using txt_page_wf by blast
  next
    assume "DOCX_try w p options = Inr r"
    from DOCX_try_Inr [OF this] obtain paragraphs ns where
      "for_range (docx_page (group_into_pages paragraphs)) ns = Inr (pages r)"
      by blast
    from for_range_pages [OF this assms(2)] obtain i where
      "docx_page (group_into_pages paragraphs) i = Inr pc" by blast
    then show ?thesis
      using group_into_pages_trimmed by (rule docx_page_wf)
  qed
qed

text \<open>
  C6. Every PageContent a strategy or the engine returns has a text without leading or
  trailing whitespace, a word count that is zero exactly when the text is empty and is
  otherwise the number of whitespace-separated tokens of the text, a character count
  equal to the length of the text, and a table count equal to the number of its tables.
\<close>

theorem page_content_invariant:
  assumes "PDF_extract_text w p options = Inr r \<or> TXT_extract_text w p options = Inr r
           \<or> DOCX_extract_text w p options = Inr r
           \<or> DocParseEngine_extract_text w p opts = Inr r"
  shows "\<forall>pc \<in> set (pages r).
           trimmed (text pc)
           \<and> ((word_count pc = 0) = (text pc = []))
           \<and> (text pc \<noteq> [] \<longrightarrow> word_count pc = int (length (py_split_ws (text pc))))
           \<and> character_count pc = int (length (text pc))
           \<and> tables_count pc = int (length (tables pc))"
proof
  fix pc
  assume pc: "pc \<in> set (pages r)"
  then have "pages r \<noteq> []" by auto
  with assms engine_cases [of w p opts r]
  obtain options' where "PDF_extract_text w p options' = Inr r
      \<or> TXT_extract_text w p options' = Inr r \<or> DOCX_extract_text w p options' = Inr r"
    by blast
  from strategy_pages_wf [OF this pc]
  show "trimmed (text pc)
           \<and> ((word_count pc = 0) = (text pc = []))
           \<and> (text pc \<noteq> [] \<longrightarrow> word_count pc = int (length (py_split_ws (text pc))))
           \<and> character_count pc = int (length (text pc))
           \<and> tables_count pc = int (length (tables pc))"
    by (simp add: well_formed_page_def)
qed

theorem page_content_invariant_witness:
  "\<exists>r. PDF_extract_text sample_world (sample_path ''report.pdf'') default_options = Inr r
       \<and> map text (pages r) = [''Annual report'', [], ''third page'']
       \<and> (\<forall>pc \<in> set (pages r).
             trimmed (text pc)
             \<and> ((word_count pc = 0) = (text pc = []))
             \<and> (text pc \<noteq> [] \<longrightarrow> word_count pc = int (length (py_split_ws (text pc))))
             \<and> character_count pc = int (length (text pc))
             \<and> tables_count pc = int (length (tables pc)))"
proof -
  have "map_sum str_of_exn (\<lambda>r. map text (pages r))
          (PDF_extract_text sample_world (sample_path ''report.pdf'') default_options)
        = Inr [''Annual report'', [], ''third page'']"
    by code_simp
  then obtain r where r: "PDF_extract_text sample_world (sample_path ''report.pdf'') default_options = Inr r"
      "map text (pages r) = [''Annual report'', [], ''third page'']"
    by (cases "PDF_extract_text sample_world (sample_path ''report.pdf'') default_options") auto
  from r(1) have "PDF_extract_text sample_world (sample_path ''report.pdf'') default_options = Inr r
      \<or> TXT_extract_text sample_world (sample_path ''report.pdf'') default_options = Inr r
      \<or> DOCX_extract_text sample_world (sample_path ''report.pdf'') default_options = Inr r
      \<or> DocParseEngine_extract_text sample_world (sample_path ''report.pdf'') None = Inr r"
    by simp
  from page_content_invariant [OF this] r show ?thesis
    by (intro exI [of _ r]) simp
qed

text \<open>
  Where \<open>exists()\<close> returns, the engine and the three strategies return an
  ExtractionResult, and an exception raised inside a strategy becomes a result with
  \<open>success = False\<close> that carries its message.
\<close>

lemma PDF_extract_text_total:
  "fs_exists w p = Inr found \<Longrightarrow> \<exists>r. PDF_extract_text w p options = Inr r"
  using failure_result_Inr [of w p found PDF "''PDF''"]
  by (auto simp: PDF_extract_text_def split: sum.splits)

lemma TXT_extract_text_total:
  "fs_exists w p = Inr found \<Longrightarrow> \<exists>r. TXT_extract_text w p options = Inr r"
  using failure_result_Inr [of w p found TXT "''TXT''"]
  by (auto simp: TXT_extract_text_def split: sum.splits)

lemma DOCX_extract_text_total:
  "fs_exists w p = Inr found \<Longrightarrow> \<exists>r. DOCX_extract_text w p options = Inr r"
  using failure_result_Inr [of w p found DOCX "''DOCX''"]
  by (auto simp: DOCX_extract_text_def split: sum.splits)

lemma engine_total:
  assumes "fs_exists w p = Inr found"
  shows "\<exists>r. DocParseEngine_extract_text w p opts = Inr r"
proof (cases found)
  case False
  with assms show ?thesis
    by (simp add: DocParseEngine_extract_text_def engine_extract_text_def)
next
  case True
  show ?thesis
  proof (cases "DocumentType_of (file_extension p)")
    case (Inl e)
    with True assms show ?thesis
      by (simp add: DocParseEngine_extract_text_def engine_extract_text_def Path_stat_size_def)
  next
    case (Inr doc_type)
    with True assms show ?thesis
      using PDF_extract_text_total [OF assms] TXT_extract_text_total [OF assms]
        DOCX_extract_text_total [OF assms]
      by (cases doc_type)
         (simp_all add: DocParseEngine_extract_text_def engine_extract_text_def)
  qed
qed

lemma errors_become_results_when_exists_returns:
  assumes "fs_exists w p = Inr found"
  shows "(\<exists>r. PDF_extract_text w p options = Inr r)
   \<and> (\<exists>r. TXT_extract_text w p options = Inr r)
   \<and> (\<exists>r. DOCX_extract_text w p options = Inr r)
   \<and> (\<exists>r. DocParseEngine_extract_text w p opts = Inr r)
   \<and> (\<forall>e fe. extract_with_pdfplumber w p options = Inl e
           \<and> extract_with_pymupdf w p options = Inl fe \<longrightarrow>
         (\<exists>r. PDF_extract_text w p options = Inr r \<and> \<not> success r
            \<and> error_message r = Some (''PDF extraction failed: '' @ str_of_exn e)))
   \<and> (\<forall>e. TXT_try w p options = Inl e \<longrightarrow>
         (\<exists>r. TXT_extract_text w p options = Inr r \<and> \<not> success r
            \<and> error_message r = Some (''TXT extraction failed: '' @ str_of_exn e)))
   \<and> (\<forall>e. DOCX_try w p options = Inl e \<longrightarrow>
         (\<exists>r. DOCX_extract_text w p options = Inr r \<and> \<not> success r
            \<and> error_message r = Some (''DOCX extraction failed: '' @ str_of_exn e)))"
proof (intro conjI allI impI)
  show "\<exists>r. PDF_extract_text w p options = Inr r" by (rule PDF_extract_text_total [OF assms])
  show "\<exists>r. TXT_extract_text w p options = Inr r" by (rule TXT_extract_text_total [OF assms])
  show "\<exists>r. DOCX_extract_text w p options = Inr r" by (rule DOCX_extract_text_total [OF assms])
  show "\<exists>r. DocParseEngine_extract_text w p opts = Inr r" by (rule engine_total [OF assms])
next
  fix e fe
  assume "extract_with_pdfplumber w p options = Inl e
           \<and> extract_with_pymupdf w p options = Inl fe"
  then show "\<exists>r. PDF_extract_text w p options = Inr r \<and> \<not> success r
            \<and> error_message r = Some (''PDF extraction failed: '' @ str_of_exn e)"
    using failure_result_Inr [OF assms, of PDF "''PDF''" e]
    by (auto simp: PDF_extract_text_def)
next
  fix e
  assume "TXT_try w p options = Inl e"
  then show "\<exists>r. TXT_extract_text w p options = Inr r \<and> \<not> success r
            \<and> error_message r = Some (''TXT extraction failed: '' @ str_of_exn e)"
    using failure_result_Inr [OF assms, of TXT "''TXT''" e]
    by (auto simp: TXT_extract_text_def)
next
  fix e
  assume "DOCX_try w p options = Inl e"
  then show "\<exists>r. DOCX_extract_text w p options = Inr r \<and> \<not> success r
            \<and> error_message r = Some (''DOCX extraction failed: '' @ str_of_exn e)"
    using failure_result_Inr [OF assms, of DOCX "''DOCX''" e]
    by (auto simp: DOCX_extract_text_def)
qed

lemma errors_become_results_sample:
  "(\<exists>r. TXT_extract_text sample_world (sample_path ''locked.txt'') default_options = Inr r
         \<and> \<not> success r
         \<and> error_message r = Some ''TXT extraction failed: Permission denied'')
   \<and> (\<exists>r. DOCX_extract_text sample_world (sample_path ''corrupt.docx'') default_options = Inr r
         \<and> \<not> success r
         \<and> error_message r = Some ''DOCX extraction failed: Package not found'')"
proof -
  have h1: "TXT_try sample_world (sample_path ''locked.txt'') default_options
     = Inl (Exception ''Permission denied'')"
    by (simp add: TXT_try_def sample_defs)
  have h2: "DOCX_try sample_world (sample_path ''corrupt.docx'') default_options
     = Inl (Exception ''Package not found'')"
    by (simp add: DOCX_try_def sample_defs)
  have e1: "fs_exists sample_world (sample_path ''locked.txt'') = Inr True"
    by (simp add: sample_defs)
  have e2: "fs_exists sample_world (sample_path ''corrupt.docx'') = Inr True"
    by (simp add: sample_defs)
  note t = errors_become_results_when_exists_returns [OF e1, of default_options None]
  note d = errors_become_results_when_exists_returns [OF e2, of default_options None]
  from t h1 have a: "\<exists>r. TXT_extract_text sample_world (sample_path ''locked.txt'') default_options = Inr r
         \<and> \<not> success r
         \<and> error_message r = Some ''TXT extraction failed: Permission denied''"
    by simp
  from d h2 have b: "\<exists>r. DOCX_extract_text sample_world (sample_path ''corrupt.docx'') default_options = Inr r
         \<and> \<not> success r
         \<and> error_message r = Some ''DOCX extraction failed: Package not found''"
    by simp
  from a b show ?thesis by blast
qed

lemma strategies_raise_with_exists:
  assumes "fs_exists w p = Inl x"
  shows "TXT_try w p options = Inl e \<Longrightarrow> TXT_extract_text w p options = Inl x"
    and "DOCX_try w p options = Inl e \<Longrightarrow> DOCX_extract_text w p options = Inl x"
    and "extract_with_pdfplumber w p options = Inl e \<Longrightarrow>
         extract_with_pymupdf w p options = Inl fe \<Longrightarrow> PDF_extract_text w p options = Inl x"
    and "DocParseEngine_extract_text w p opts = Inl x"
  using failure_result_raises [OF assms]
  by (simp_all add: TXT_extract_text_def DOCX_extract_text_def PDF_extract_text_def
      DocParseEngine_extract_text_def engine_exists_raises [OF assms])

text \<open>
  C9. On Python 3.11 \<open>Path.exists()\<close> raises for a name of 300 characters. The TXT and
  DOCX strategies catch the error of opening such a path, but their handler calls
  \<open>exists()\<close> again through \<open>_create_error_metadata\<close> and ends with its exception; the
  engine calls \<open>exists()\<close> outside any \<open>try\<close>. None of the three returns a result.
\<close>

theorem unhandled_exception:
  "TXT_try sample_world (sample_path (long_name ''.txt'')) default_options = Inl name_too_long
   \<and> TXT_extract_text sample_world (sample_path (long_name ''.txt'')) default_options
     = Inl name_too_long
   \<and> DOCX_try sample_world (sample_path (long_name ''.docx'')) default_options
     = Inl name_too_long
   \<and> DOCX_extract_text sample_world (sample_path (long_name ''.docx'')) default_options
     = Inl name_too_long
   \<and> DocParseEngine_extract_text sample_world (sample_path (long_name ''.docx'')) None
     = Inl name_too_long"
  by code_simp

section \<open>Text segmentation and the result invariant\<close>

declare split_newline_runs.simps [simp del]

text \<open>
  The code tests the number of chunks of a split before it drops the blank ones. On a form
  feed followed by two blocks that three newlines separate, the form-feed split has one
  non-blank chunk only, yet the code uses it, where the specification's wording goes on
  to the newline split. The code also splits at the literal three-newline string: of a
  run of four newlines the fourth stays at the head of the next chunk, where a split at
  runs of three or more newlines leaves none.
\<close>

theorem segmentation_order_counterexample:
  "split_into_pages ([CHR 0x0C] @ ''a\<newline>\<newline>\<newline>b'') = [''a\<newline>\<newline>\<newline>b'']
   \<and> spec_split_into_pages ([CHR 0x0C] @ ''a\<newline>\<newline>\<newline>b'') = [[CHR 0x0C, CHR ''a''], ''b'']
   \<and> split_into_pages ''a\<newline>\<newline>\<newline>\<newline>b'' = [''a'', ''\<newline>b'']
   \<and> spec_split_into_pages ''a\<newline>\<newline>\<newline>\<newline>b'' = [''a'', ''b'']"
  by code_simp

lemma sublist_form_feed: "sublist [CHR 0x0C] content = (CHR 0x0C \<in> set content)"
  by (auto simp: sublist_def in_set_conv_decomp)

lemma set_str_join: "set (str_join sep xs) \<subseteq> set sep \<union> (\<Union>x \<in> set xs. set x)"
  by (induction sep xs rule: str_join.induct) auto

lemma blank_chunks_blank_content:
  assumes "sep \<noteq> []" and "\<forall>c \<in> set sep. isspace c"
    and "filter nonblank (str_split sep s) = []"
  shows "\<not> nonblank s"
proof -
  from assms(3) have "\<forall>x \<in> set (str_split sep s). \<forall>c \<in> set x. isspace c"
    by (auto simp: filter_empty_conv nonblank_def py_strip_Nil)
  with assms(2) have "\<forall>c \<in> set (str_join sep (str_split sep s)). isspace c"
    using set_str_join [of sep "str_split sep s"] by blast
  then have "\<forall>c \<in> set s. isspace c"
    by (simp add: str_join_split [OF assms(1)])
  then show ?thesis
    by (simp add: nonblank_def py_strip_Nil)
qed

lemma windows_not_Nil: "0 < n \<Longrightarrow> py_range_step 0 n 3000 \<noteq> []"
  by (subst py_range_step.simps) simp

lemma split_into_pages_cases:
  "split_into_pages content =
     (if CHR 0x0C \<in> set content
      then filter nonblank (str_split [CHR 0x0C] content)
      else if sublist ''\<newline>\<newline>\<newline>'' content
      then filter nonblank (str_split ''\<newline>\<newline>\<newline>'' content)
      else if 3000 < length content
      then map (\<lambda>i. py_slice content i (i + 3000)) (py_range_step 0 (length content) 3000)
      else if nonblank content then [content] else [[]])"
proof -
  have a: "(1 < length (str_split [CHR 0x0C] content)) = (CHR 0x0C \<in> set content)"
    using str_split_length_gt1 [of "[CHR 0x0C]" content] sublist_form_feed by simp
  have b: "(1 < length (str_split ''\<newline>\<newline>\<newline>'' content)) = sublist ''\<newline>\<newline>\<newline>'' content"
    using str_split_length_gt1 [of "''\<newline>\<newline>\<newline>''" content] by simp
  show ?thesis
    unfolding split_into_pages_def a b by (rule refl)
qed

lemma split_into_pages_not_Nil:
  assumes "nonblank content
           \<or> (CHR 0x0C \<notin> set content \<and> \<not> sublist ''\<newline>\<newline>\<newline>'' content)"
  shows "split_into_pages content \<noteq> []"
proof (cases "CHR 0x0C \<in> set content")
  case True
  with assms have "nonblank content" by blast
  then have "filter nonblank (str_split [CHR 0x0C] content) \<noteq> []"
    using blank_chunks_blank_content [of "[CHR 0x0C]" content] by (auto simp: isspace_def)
  with True show ?thesis by (simp add: split_into_pages_cases)
next
  case no_ff: False
  show ?thesis
  proof (cases "sublist ''\<newline>\<newline>\<newline>'' content")
    case True
    with assms have "nonblank content" by blast
    then have "filter nonblank (str_split ''\<newline>\<newline>\<newline>'' content) \<noteq> []"
      using blank_chunks_blank_content [of "''\<newline>\<newline>\<newline>''" content]
      by (auto simp: isspace_def)
    with True no_ff show ?thesis by (simp add: split_into_pages_cases)
  next
    case False
    have "3000 < length content \<Longrightarrow> py_range_step 0 (length content) 3000 \<noteq> []"
      by (rule windows_not_Nil) auto
    with False no_ff show ?thesis
      by (simp add: split_into_pages_cases)
  qed
qed

text \<open>
  C2, as amended. For content that is not blank, and for content that holds neither a form
  feed nor three consecutive newlines, the segmentation tries in this order: the
  form-feed split, used when the content holds a form feed (the split then has more than
  one chunk, blank ones counted); the split at each occurrence, from the left, of three
  consecutive newlines, used when the content holds one; the 3000-character windows, for
  longer content; the whole content. Blank chunks are dropped from the result of the
  first two steps, at least one chunk remains, and otherwise blank content gives one
  empty chunk. Blank content that holds a form feed or three consecutive newlines is not
  covered.
\<close>

theorem segmentation_order:
  assumes "nonblank content
           \<or> (CHR 0x0C \<notin> set content \<and> \<not> sublist ''\<newline>\<newline>\<newline>'' content)"
  shows "split_into_pages content =
     (if CHR 0x0C \<in> set content
      then filter nonblank (str_split [CHR 0x0C] content)
      else if sublist ''\<newline>\<newline>\<newline>'' content
      then filter nonblank (str_split ''\<newline>\<newline>\<newline>'' content)
      else if 3000 < length content
      then map (\<lambda>i. py_slice content i (i + 3000)) (py_range_step 0 (length content) 3000)
      else if nonblank content then [content] else [[]])
     \<and> (CHR 0x0C \<in> set content) = (1 < length (str_split [CHR 0x0C] content))
     \<and> sublist ''\<newline>\<newline>\<newline>'' content = (1 < length (str_split ''\<newline>\<newline>\<newline>'' content))
     \<and> str_join [CHR 0x0C] (str_split [CHR 0x0C] content) = content
     \<and> str_join ''\<newline>\<newline>\<newline>'' (str_split ''\<newline>\<newline>\<newline>'' content) = content
     \<and> split_into_pages content \<noteq> []"
proof -
  have a: "(CHR 0x0C \<in> set content) = (1 < length (str_split [CHR 0x0C] content))"
    using str_split_length_gt1 [of "[CHR 0x0C]" content] sublist_form_feed by simp
  have b: "sublist ''\<newline>\<newline>\<newline>'' content = (1 < length (str_split ''\<newline>\<newline>\<newline>'' content))"
    using str_split_length_gt1 [of "''\<newline>\<newline>\<newline>''" content] by simp
  have c: "str_join [CHR 0x0C] (str_split [CHR 0x0C] content) = content"
    by (rule str_join_split) simp
  have d: "str_join ''\<newline>\<newline>\<newline>'' (str_split ''\<newline>\<newline>\<newline>'' content) = content"
    by (rule str_join_split) simp
  note e = split_into_pages_cases [of content]
  note f = split_into_pages_not_Nil [OF assms]
  from a b c d e f show ?thesis by blast
qed

theorem segmentation_order_witness:
  "nonblank (''a'' @ [CHR 0x0C])
   \<and> split_into_pages (''a'' @ [CHR 0x0C]) = [''a'']
   \<and> nonblank ''a\<newline>\<newline>\<newline>\<newline>b''
   \<and> split_into_pages ''a\<newline>\<newline>\<newline>\<newline>b'' = [''a'', ''\<newline>b'']
   \<and> \<not> nonblank ''  '' \<and> CHR 0x0C \<notin> set ''  '' \<and> \<not> sublist ''\<newline>\<newline>\<newline>'' ''  ''
   \<and> split_into_pages ''  '' = [[]]"
proof -
  have n1: "nonblank (''a'' @ [CHR 0x0C])" by code_simp
  have n2: "nonblank ''a\<newline>\<newline>\<newline>\<newline>b''" by code_simp
  have f1: "CHR 0x0C \<in> set (''a'' @ [CHR 0x0C])" by simp
  have f2: "CHR 0x0C \<notin> set ''a\<newline>\<newline>\<newline>\<newline>b''" by simp
  have f3: "sublist ''\<newline>\<newline>\<newline>'' ''a\<newline>\<newline>\<newline>\<newline>b''" by code_simp
  have f4: "CHR 0x0C \<notin> set ''  ''" by simp
  have f5: "\<not> sublist ''\<newline>\<newline>\<newline>'' ''  ''" by code_simp
  have g1: "filter nonblank (str_split [CHR 0x0C] (''a'' @ [CHR 0x0C])) = [''a'']" by code_simp
  have g2: "filter nonblank (str_split ''\<newline>\<newline>\<newline>'' ''a\<newline>\<newline>\<newline>\<newline>b'') = [''a'', ''\<newline>b'']"
    by code_simp
  have g3: "\<not> nonblank ''  ''" by code_simp
  have h1: "nonblank (''a'' @ [CHR 0x0C])
      \<or> (CHR 0x0C \<notin> set (''a'' @ [CHR 0x0C]) \<and> \<not> sublist ''\<newline>\<newline>\<newline>'' (''a'' @ [CHR 0x0C]))"
    using n1 by blast
  have h2: "nonblank ''a\<newline>\<newline>\<newline>\<newline>b''
      \<or> (CHR 0x0C \<notin> set ''a\<newline>\<newline>\<newline>\<newline>b'' \<and> \<not> sublist ''\<newline>\<newline>\<newline>'' ''a\<newline>\<newline>\<newline>\<newline>b'')"
    using n2 by blast
  have h3: "nonblank ''  '' \<or> (CHR 0x0C \<notin> set ''  '' \<and> \<not> sublist ''\<newline>\<newline>\<newline>'' ''  '')"
    using f4 f5 by blast
  from segmentation_order [OF h1] f1 g1
  have a: "split_into_pages (''a'' @ [CHR 0x0C]) = [''a'']" by simp
  from segmentation_order [OF h2] f2 f3 g2
  have b: "split_into_pages ''a\<newline>\<newline>\<newline>\<newline>b'' = [''a'', ''\<newline>b'']" by simp
  from segmentation_order [OF h3] f4 f5 g3
  have c: "split_into_pages ''  '' = [[]]" by simp
  from a b c n1 n2 g3 f4 f5 show ?thesis by blast
qed

lemma success_iff_no_error:
  assumes "PDF_extract_text w p options = Inr r \<or> TXT_extract_text w p options = Inr r
           \<or> DOCX_extract_text w p options = Inr r
           \<or> DocParseEngine_extract_text w p opts = Inr r"
  shows "success r = (error_message r = None)"
    and "\<not> success r \<Longrightarrow> pages r = [] \<and> pages_processed (metadata r) = 0"
proof -
  from assms engine_cases [of w p opts r]
  consider "\<not> success r" "pages r = []" "error_message r \<noteq> None"
      "pages_processed (metadata r) = 0"
    | options' where "PDF_extract_text w p options' = Inr r
        \<or> TXT_extract_text w p options' = Inr r \<or> DOCX_extract_text w p options' = Inr r"
    by blast
  then have "success r = (error_message r = None)
      \<and> (\<not> success r \<longrightarrow> pages r = [] \<and> pages_processed (metadata r) = 0)"
  proof cases
    case 1
    then show ?thesis by simp
  next
    case 2
    show ?thesis
      using strategy_success [OF 2] strategy_failure [OF 2] by (cases "success r") auto
  qed
  then show "success r = (error_message r = None)"
    and "\<not> success r \<Longrightarrow> pages r = [] \<and> pages_processed (metadata r) = 0"
    by simp_all
qed

text \<open>
  C1. A text file that holds a single form feed is extracted with \<open>success = True\<close>, no
  error message and no page at all: the form-feed split is taken and both its chunks are
  blank. Blank content without a separator, and a DOCX document without text, give one
  empty page instead.
\<close>

theorem success_without_pages:
  "TXT_extract_text sample_world (sample_path ''blank.txt'') default_options =
   Inr \<lparr>metadata =
          \<lparr>filename = ''blank.txt'', file_size = 42, total_pages = 0,
           pages_processed = 0, extraction_timestamp = ''2024-05-01T09:30:00'',
           extraction_method = ''plain_text'', processing_time = 2,
           document_type = ''txt''\<rparr>,
        pages = [], success = True, error_message = None\<rparr>"
  by code_simp

lemma blank_sibling_paths:
  "split_into_pages [] = [[]]" "split_into_pages ''  '' = [[]]"
  "split_into_pages [CHR 0x0C] = []" "split_into_pages ''\<newline>\<newline>\<newline>'' = []"
  "group_into_pages [] = [[]]" "group_into_pages ['' ''] = [[]]"
  by code_simp+

end
